theory Spec2Isabelle
  imports Complex_Main
begin

section \<open>Telemetry payloads (dto/ingest-telemetry.dto.ts)\<close>

text \<open>
  The two payload classes after validation. A JavaScript number that passed
  \<^verbatim>\<open>@IsNumber()\<close> is finite, hence a rational; the \<^verbatim>\<open>timestamp\<close> stays the
  string the device sent and is turned into an instant only by the repositories
  (\<^verbatim>\<open>new Date(records[i].timestamp)\<close>).
\<close>

record VehiclePayloadDto =
  vehicleId :: string
  soc :: rat
  kwhDeliveredDc :: rat
  batteryTemp :: rat
  timestamp :: string

record MeterPayloadDto =
  meterId :: string
  kwhConsumedAc :: rat
  voltage :: rat
  timestamp :: string

section \<open>The PostgreSQL tables (schema and entities)\<close>

text \<open>
  Both device classes have a partitioned history table and a current-status
  table keyed by the device identifier. A history row carries the identifier,
  the class's value columns, \<^verbatim>\<open>recorded_at\<close> and \<^verbatim>\<open>ingested_at\<close>; a current row carries
  the same value columns, \<^verbatim>\<open>last_seen_at\<close> and \<^verbatim>\<open>updated_at\<close>. Instants are
  milliseconds since the epoch. The identity column \<^verbatim>\<open>id\<close> of the history tables
  is never read by the application and is left out.
\<close>

record vehicle_values =
  soc :: rat
  kwh_delivered_dc :: rat
  battery_temp :: rat

record meter_values =
  kwh_consumed_ac :: rat
  voltage :: rat

record 'v history_row =
  device_id :: string
  readings :: 'v
  recorded_at :: int
  ingested_at :: int

record 'v current_row =
  latest :: 'v
  last_seen_at :: int
  updated_at :: int

record 'v store =
  history :: "'v history_row list"
  current :: "string \<rightharpoonup> 'v current_row"

datatype db_error =
  ConnectionFailure
  | StatementTimeout
  | StringDataRightTruncation
  | NumericValueOutOfRange
  | InvalidDatetimeFormat
  | CardinalityViolation
  | DivisionByZero

datatype statement = InsertHistory | UpsertCurrent

datatype db_call =
  Connect
  | StartTransaction
  | Query statement
  | CommitTransaction
  | RollbackTransaction
  | Release

text \<open>
  What the server holds for one device class: the committed tables every reader
  sees, the working copy of the transaction in progress, and the calls the
  query runners have issued so far.
\<close>

record 'v session =
  committed :: "'v store"
  working :: "'v store"
  calls :: "db_call list"

subsection \<open>Column types\<close>

definition bind_err :: "'e + 'a \<Rightarrow> ('a \<Rightarrow> 'e + 'b) \<Rightarrow> 'e + 'b" where
  "bind_err m f = (case m of Inl e \<Rightarrow> Inl e | Inr x \<Rightarrow> f x)"

text \<open>
  \<^verbatim>\<open>VARCHAR(n)\<close>: a longer string is an error unless the excess is all spaces, which
  is cut off.
\<close>

definition varchar :: "nat \<Rightarrow> string \<Rightarrow> db_error + string" where
  "varchar n s =
     (if length s \<le> n then Inr s
      else if list_all (\<lambda>c. c = CHR '' '') (drop n s) then Inr (take n s)
      else Inl StringDataRightTruncation)"

text \<open>\<^verbatim>\<open>ROUND(x, s)\<close> on \<^verbatim>\<open>numeric\<close>: to \<open>s\<close> fractional digits, ties away from zero.\<close>

definition pg_round :: "nat \<Rightarrow> rat \<Rightarrow> rat" where
  "pg_round s x = sgn x * of_int \<lfloor>\<bar>x\<bar> * 10 ^ s + 1 / 2\<rfloor> / 10 ^ s"

text \<open>
  \<^verbatim>\<open>NUMERIC(p, s)\<close>: the value is rounded to \<open>s\<close> fractional digits and must then be
  smaller in absolute value than \<open>10 ^ (p - s)\<close>.
\<close>

definition numeric :: "nat \<Rightarrow> nat \<Rightarrow> rat \<Rightarrow> db_error + rat" where
  "numeric p s x =
     (let r = pg_round s x
      in if \<bar>r\<bar> < 10 ^ (p - s) then Inr r else Inl NumericValueOutOfRange)"

text \<open>
  \<^verbatim>\<open>TIMESTAMPTZ\<close> bound to \<^verbatim>\<open>new Date(timestamp)\<close>. The parameter \<open>toDate\<close> is
  JavaScript's date parser; \<open>None\<close> is its \<^verbatim>\<open>Invalid Date\<close>, which the server
  refuses.
\<close>

definition timestamptz :: "(string \<Rightarrow> int option) \<Rightarrow> string \<Rightarrow> db_error + int" where
  "timestamptz toDate s =
     (case toDate s of None \<Rightarrow> Inl InvalidDatetimeFormat | Some t \<Rightarrow> Inr t)"

subsection \<open>The rows the two statements propose\<close>

definition vehicle_columns :: "VehiclePayloadDto \<Rightarrow> db_error + vehicle_values" where
  "vehicle_columns r =
     bind_err (numeric 5 2 (VehiclePayloadDto.soc r)) (\<lambda>s.
     bind_err (numeric 10 4 (kwhDeliveredDc r)) (\<lambda>k.
     bind_err (numeric 5 2 (batteryTemp r)) (\<lambda>b.
       Inr \<lparr>soc = s, kwh_delivered_dc = k, battery_temp = b\<rparr>)))"

definition meter_columns :: "MeterPayloadDto \<Rightarrow> db_error + meter_values" where
  "meter_columns r =
     bind_err (numeric 10 4 (kwhConsumedAc r)) (\<lambda>k.
     bind_err (numeric 6 2 (MeterPayloadDto.voltage r)) (\<lambda>v.
       Inr \<lparr>kwh_consumed_ac = k, voltage = v\<rparr>))"

text \<open>
  One bound parameter row: identifier, value columns and instant, in the order
  the loops of \<^verbatim>\<open>ingestBatch\<close> push them.
\<close>

definition vehicle_params ::
  "(string \<Rightarrow> int option) \<Rightarrow> VehiclePayloadDto \<Rightarrow> db_error + string \<times> vehicle_values \<times> int" where
  "vehicle_params toDate r =
     bind_err (varchar 64 (vehicleId r)) (\<lambda>k.
     bind_err (vehicle_columns r) (\<lambda>v.
     bind_err (timestamptz toDate (VehiclePayloadDto.timestamp r)) (\<lambda>t.
       Inr (k, v, t))))"

definition meter_params ::
  "(string \<Rightarrow> int option) \<Rightarrow> MeterPayloadDto \<Rightarrow> db_error + string \<times> meter_values \<times> int" where
  "meter_params toDate r =
     bind_err (varchar 64 (meterId r)) (\<lambda>k.
     bind_err (meter_columns r) (\<lambda>v.
     bind_err (timestamptz toDate (MeterPayloadDto.timestamp r)) (\<lambda>t.
       Inr (k, v, t))))"

text \<open>A multi-row \<^verbatim>\<open>VALUES\<close> list: the first row the server refuses fails the statement.\<close>

fun values_rows :: "('d \<Rightarrow> db_error + 'r) \<Rightarrow> 'd list \<Rightarrow> db_error + 'r list" where
  "values_rows f [] = Inr []"
| "values_rows f (r # rs) =
     bind_err (f r) (\<lambda>x. bind_err (values_rows f rs) (\<lambda>xs. Inr (x # xs)))"

definition to_history_row :: "int \<Rightarrow> string \<times> 'v \<times> int \<Rightarrow> 'v history_row" where
  "to_history_row now p =
     (case p of (k, v, t) \<Rightarrow>
        \<lparr>device_id = k, readings = v, recorded_at = t, ingested_at = now\<rparr>)"

definition to_current_row :: "int \<Rightarrow> string \<times> 'v \<times> int \<Rightarrow> string \<times> 'v current_row" where
  "to_current_row now p =
     (case p of (k, v, t) \<Rightarrow> (k, \<lparr>latest = v, last_seen_at = t, updated_at = now\<rparr>))"

subsection \<open>INSERT ... ON CONFLICT (id) DO UPDATE ... WHERE stored.last_seen_at < EXCLUDED.last_seen_at\<close>

text \<open>
  PostgreSQL takes the proposed rows in order. A row whose key is absent is
  inserted. A row whose key is present is a conflict: if that key's row was
  inserted or updated earlier by this same statement, the statement fails with
  a cardinality violation (``ON CONFLICT DO UPDATE command cannot affect row a
  second time''); otherwise the row is replaced when the \<^verbatim>\<open>WHERE\<close> guard holds and
  kept when it does not. \<open>touched\<close> lists the keys this statement has inserted or
  updated.
\<close>

fun on_conflict_do_update ::
  "(string \<times> 'v current_row) list \<Rightarrow> string list \<Rightarrow> (string \<rightharpoonup> 'v current_row)
     \<Rightarrow> db_error + (string \<rightharpoonup> 'v current_row)" where
  "on_conflict_do_update [] touched tbl = Inr tbl"
| "on_conflict_do_update ((k, r) # rest) touched tbl =
     (case tbl k of
        None \<Rightarrow> on_conflict_do_update rest (k # touched) (tbl(k \<mapsto> r))
      | Some old \<Rightarrow>
          if k \<in> set touched then Inl CardinalityViolation
          else if last_seen_at old < last_seen_at r
            then on_conflict_do_update rest (k # touched) (tbl(k \<mapsto> r))
            else on_conflict_do_update rest touched tbl)"

section \<open>Batch repositories (repositories/*.repository.ts)\<close>

text \<open>
  The calls of a TypeORM query runner. \<open>fault\<close> is the environment of one
  \<^verbatim>\<open>ingestBatch\<close> call: the error, if any, with which the connection or the server
  answers each call (lost connection, statement timeout). Each function returns
  the error thrown, if any, and the session after the call.
\<close>

definition logged :: "db_call \<Rightarrow> 'v session \<Rightarrow> 'v session" where
  "logged c s = s\<lparr>calls := calls s @ [c]\<rparr>"

definition connect :: "(db_call \<Rightarrow> db_error option) \<Rightarrow> 'v session \<Rightarrow> db_error option \<times> 'v session" where
  "connect fault s = (fault Connect, logged Connect s)"

definition startTransaction ::
  "(db_call \<Rightarrow> db_error option) \<Rightarrow> 'v session \<Rightarrow> db_error option \<times> 'v session" where
  "startTransaction fault s =
     (case fault StartTransaction of
        Some e \<Rightarrow> (Some e, logged StartTransaction s)
      | None \<Rightarrow> (None, (logged StartTransaction s)\<lparr>working := committed s\<rparr>))"

definition query_insert_history ::
  "(db_call \<Rightarrow> db_error option) \<Rightarrow> int \<Rightarrow> (db_error + (string \<times> 'v \<times> int) list) \<Rightarrow> 'v session
     \<Rightarrow> db_error option \<times> 'v session" where
  "query_insert_history fault now params s =
     (case fault (Query InsertHistory) of
        Some e \<Rightarrow> (Some e, logged (Query InsertHistory) s)
      | None \<Rightarrow>
         (case params of
            Inl e \<Rightarrow> (Some e, logged (Query InsertHistory) s)
          | Inr ps \<Rightarrow>
              (None, (logged (Query InsertHistory) s)
                 \<lparr>working := (working s)
                    \<lparr>history := history (working s) @ map (to_history_row now) ps\<rparr>\<rparr>)))"

definition query_upsert_current ::
  "(db_call \<Rightarrow> db_error option) \<Rightarrow> int \<Rightarrow> (db_error + (string \<times> 'v \<times> int) list) \<Rightarrow> 'v session
     \<Rightarrow> db_error option \<times> 'v session" where
  "query_upsert_current fault now params s =
     (case fault (Query UpsertCurrent) of
        Some e \<Rightarrow> (Some e, logged (Query UpsertCurrent) s)
      | None \<Rightarrow>
         (case bind_err params (\<lambda>ps.
                 on_conflict_do_update (map (to_current_row now) ps) [] (current (working s))) of
            Inl e \<Rightarrow> (Some e, logged (Query UpsertCurrent) s)
          | Inr tbl \<Rightarrow>
              (None, (logged (Query UpsertCurrent) s)
                 \<lparr>working := (working s)\<lparr>current := tbl\<rparr>\<rparr>)))"

definition commitTransaction ::
  "(db_call \<Rightarrow> db_error option) \<Rightarrow> 'v session \<Rightarrow> db_error option \<times> 'v session" where
  "commitTransaction fault s =
     (case fault CommitTransaction of
        Some e \<Rightarrow> (Some e, logged CommitTransaction s)
      | None \<Rightarrow> (None, (logged CommitTransaction s)\<lparr>committed := working s\<rparr>))"

text \<open>
  A rollback discards the working copy. When the \<^verbatim>\<open>ROLLBACK\<close> itself cannot be
  delivered the server aborts the open transaction all the same.
\<close>

definition rollbackTransaction ::
  "(db_call \<Rightarrow> db_error option) \<Rightarrow> 'v session \<Rightarrow> db_error option \<times> 'v session" where
  "rollbackTransaction fault s =
     (fault RollbackTransaction, (logged RollbackTransaction s)\<lparr>working := committed s\<rparr>)"

definition release :: "'v session \<Rightarrow> 'v session" where
  "release s = logged Release s"

text \<open>
  The \<^verbatim>\<open>catch\<close> and \<^verbatim>\<open>finally\<close> blocks: roll back, re-throw (the rollback's own error
  when it throws first), and release the runner on the way out.
\<close>

definition catch_rollback ::
  "(db_call \<Rightarrow> db_error option) \<Rightarrow> db_error \<Rightarrow> 'v session \<Rightarrow> (db_error + unit) \<times> 'v session" where
  "catch_rollback fault e s =
     (case rollbackTransaction fault s of
        (Some e', s') \<Rightarrow> (Inl e', release s')
      | (None, s') \<Rightarrow> (Inl e, release s'))"

text \<open>
  \<^verbatim>\<open>ingestBatch\<close>, the same control flow in both repositories; \<open>params\<close> binds one
  record to its parameter row. An error of \<^verbatim>\<open>connect\<close> or \<^verbatim>\<open>startTransaction\<close> is
  thrown before the \<^verbatim>\<open>try\<close> block is entered.
\<close>

definition ingestBatch ::
  "('d \<Rightarrow> db_error + string \<times> 'v \<times> int) \<Rightarrow> (db_call \<Rightarrow> db_error option) \<Rightarrow> int \<Rightarrow> 'd list
     \<Rightarrow> 'v session \<Rightarrow> (db_error + unit) \<times> 'v session" where
  "ingestBatch params fault now records s =
     (if length records = 0 then (Inr (), s)
      else
        (case connect fault s of
           (Some e, s1) \<Rightarrow> (Inl e, s1)
         | (None, s1) \<Rightarrow>
        (case startTransaction fault s1 of
           (Some e, s2) \<Rightarrow> (Inl e, s2)
         | (None, s2) \<Rightarrow>
        (case query_insert_history fault now (values_rows params records) s2 of
           (Some e, s3) \<Rightarrow> catch_rollback fault e s3
         | (None, s3) \<Rightarrow>
        (case query_upsert_current fault now (values_rows params records) s3 of
           (Some e, s4) \<Rightarrow> catch_rollback fault e s4
         | (None, s4) \<Rightarrow>
        (case commitTransaction fault s4 of
           (Some e, s5) \<Rightarrow> catch_rollback fault e s5
         | (None, s5) \<Rightarrow> (Inr (), release s5)))))))"

definition vehicle_ingestBatch ::
  "(string \<Rightarrow> int option) \<Rightarrow> (db_call \<Rightarrow> db_error option) \<Rightarrow> int \<Rightarrow> VehiclePayloadDto list
     \<Rightarrow> vehicle_values session \<Rightarrow> (db_error + unit) \<times> vehicle_values session" where
  "vehicle_ingestBatch toDate = ingestBatch (vehicle_params toDate)"

definition meter_ingestBatch ::
  "(string \<Rightarrow> int option) \<Rightarrow> (db_call \<Rightarrow> db_error option) \<Rightarrow> int \<Rightarrow> MeterPayloadDto list
     \<Rightarrow> meter_values session \<Rightarrow> (db_error + unit) \<times> meter_values session" where
  "meter_ingestBatch toDate = ingestBatch (meter_params toDate)"

text \<open>
  A run of the write path: one \<^verbatim>\<open>ingestBatch\<close> call per flush, each with its own
  environment, server clock and batch.
\<close>

fun ingest_batches ::
  "((db_call \<Rightarrow> db_error option) \<Rightarrow> int \<Rightarrow> 'd list \<Rightarrow> 'v session
      \<Rightarrow> (db_error + unit) \<times> 'v session)
     \<Rightarrow> ((db_call \<Rightarrow> db_error option) \<times> int \<times> 'd list) list \<Rightarrow> 'v session \<Rightarrow> 'v session" where
  "ingest_batches ingest [] s = s"
| "ingest_batches ingest ((fault, now, records) # rest) s =
     ingest_batches ingest rest (snd (ingest fault now records s))"

text \<open>
  Invariant (1) of the data model on one class's tables: every current row's
  \<^verbatim>\<open>last_seen_at\<close> is the greatest \<^verbatim>\<open>recorded_at\<close> among the device's history rows,
  its value columns are those of a history row of the device with that instant,
  and every device with a history row has a current row.
\<close>

definition readings_of :: "'v store \<Rightarrow> string \<Rightarrow> 'v history_row set" where
  "readings_of st k = {h \<in> set (history st). device_id h = k}"

definition latest_wins :: "'v store \<Rightarrow> bool" where
  "latest_wins st \<longleftrightarrow>
     (\<forall>k row. current st k = Some row \<longrightarrow>
        readings_of st k \<noteq> {} \<and>
        last_seen_at row = Max (recorded_at ` readings_of st k) \<and>
        (\<exists>h \<in> readings_of st k. recorded_at h = last_seen_at row \<and> readings h = latest row)) \<and>
     (\<forall>h \<in> set (history st). current st (device_id h) \<noteq> None)"

definition empty_store :: "'v store" where
  "empty_store = \<lparr>history = [], current = Map.empty\<rparr>"

definition fresh_session :: "'v session" where
  "fresh_session = \<lparr>committed = empty_store, working = empty_store, calls = []\<rparr>"

text \<open>No fault: the connection and the server answer every call.\<close>

definition healthy :: "db_call \<Rightarrow> db_error option" where
  "healthy c = None"


section \<open>Ingestion buffer (ingestion-buffer.service.ts)\<close>

text \<open>
  The service and what it talks to. \<^verbatim>\<open>flushVehicles\<close> and \<^verbatim>\<open>flushMeters\<close> are
  asynchronous: up to the \<^verbatim>\<open>await\<close> they run inside the caller's turn (the swap
  of the buffer and the call of the repository), and the rest runs when the
  repository's promise settles. \<open>vehicleFlights\<close> and \<open>meterFlights\<close> hold the
  batches whose promise is pending; \<open>vehicleRepoCalls\<close> and \<open>meterRepoCalls\<close>
  record every batch handed to a repository. \<open>FLUSH_SIZE\<close> is the integer
  \<^verbatim>\<open>parseInt\<close> returned (its \<^verbatim>\<open>NaN\<close> never triggers a flush, like a threshold no
  buffer reaches); \<open>flushTimer\<close> tells whether the interval timer is armed.
\<close>

record engine =
  vehicleBuffer :: "VehiclePayloadDto list"
  meterBuffer :: "MeterPayloadDto list"
  flushTimer :: bool
  FLUSH_SIZE :: int
  vehicleFlights :: "VehiclePayloadDto list list"
  meterFlights :: "MeterPayloadDto list list"
  vehicleRepoCalls :: "VehiclePayloadDto list list"
  meterRepoCalls :: "MeterPayloadDto list list"
  vehicleDb :: "vehicle_values session"
  meterDb :: "meter_values session"

text \<open>The part of \<^verbatim>\<open>flushVehicles\<close> before the \<^verbatim>\<open>await\<close>.\<close>

definition flushVehicles_begin :: "engine \<Rightarrow> engine" where
  "flushVehicles_begin w =
     (if length (vehicleBuffer w) = 0 then w
      else
        (let batch = vehicleBuffer w
         in w\<lparr>vehicleBuffer := [],
              vehicleFlights := vehicleFlights w @ [batch],
              vehicleRepoCalls := vehicleRepoCalls w @ [batch]\<rparr>))"

definition flushMeters_begin :: "engine \<Rightarrow> engine" where
  "flushMeters_begin w =
     (if length (meterBuffer w) = 0 then w
      else
        (let batch = meterBuffer w
         in w\<lparr>meterBuffer := [],
              meterFlights := meterFlights w @ [batch],
              meterRepoCalls := meterRepoCalls w @ [batch]\<rparr>))"

definition remove_nth :: "nat \<Rightarrow> 'a list \<Rightarrow> 'a list" where
  "remove_nth i xs = take i xs @ drop (Suc i) xs"

text \<open>
  The part after the \<^verbatim>\<open>await\<close>, for the pending batch number \<open>i\<close>: the
  repository's transaction runs against the server, and a rejection puts the
  batch back in front of whatever the buffer holds by then.
\<close>

definition flushVehicles_settle ::
  "(string \<Rightarrow> int option) \<Rightarrow> (db_call \<Rightarrow> db_error option) \<Rightarrow> int \<Rightarrow> nat \<Rightarrow> engine \<Rightarrow> engine" where
  "flushVehicles_settle toDate fault now i w =
     (if i < length (vehicleFlights w) then
        (let batch = vehicleFlights w ! i;
             w1 = w\<lparr>vehicleFlights := remove_nth i (vehicleFlights w)\<rparr>
         in case vehicle_ingestBatch toDate fault now batch (vehicleDb w) of
              (Inr u, db) \<Rightarrow> w1\<lparr>vehicleDb := db\<rparr>
            | (Inl e, db) \<Rightarrow> w1\<lparr>vehicleDb := db, vehicleBuffer := batch @ vehicleBuffer w\<rparr>)
      else w)"

definition flushMeters_settle ::
  "(string \<Rightarrow> int option) \<Rightarrow> (db_call \<Rightarrow> db_error option) \<Rightarrow> int \<Rightarrow> nat \<Rightarrow> engine \<Rightarrow> engine" where
  "flushMeters_settle toDate fault now i w =
     (if i < length (meterFlights w) then
        (let batch = meterFlights w ! i;
             w1 = w\<lparr>meterFlights := remove_nth i (meterFlights w)\<rparr>
         in case meter_ingestBatch toDate fault now batch (meterDb w) of
              (Inr u, db) \<Rightarrow> w1\<lparr>meterDb := db\<rparr>
            | (Inl e, db) \<Rightarrow> w1\<lparr>meterDb := db, meterBuffer := batch @ meterBuffer w\<rparr>)
      else w)"

definition pushVehicle :: "VehiclePayloadDto \<Rightarrow> engine \<Rightarrow> engine" where
  "pushVehicle record' w =
     (let w1 = w\<lparr>vehicleBuffer := vehicleBuffer w @ [record']\<rparr>
      in if int (length (vehicleBuffer w1)) \<ge> FLUSH_SIZE w1 then flushVehicles_begin w1 else w1)"

definition pushMeter :: "MeterPayloadDto \<Rightarrow> engine \<Rightarrow> engine" where
  "pushMeter record' w =
     (let w1 = w\<lparr>meterBuffer := meterBuffer w @ [record']\<rparr>
      in if int (length (meterBuffer w1)) \<ge> FLUSH_SIZE w1 then flushMeters_begin w1 else w1)"

record buffer_depth =
  vehicles :: nat
  meters :: nat

definition getBufferDepth :: "engine \<Rightarrow> buffer_depth" where
  "getBufferDepth w = \<lparr>vehicles = length (vehicleBuffer w), meters = length (meterBuffer w)\<rparr>"

text \<open>\<^verbatim>\<open>Promise.all([this.flushVehicles(), this.flushMeters()])\<close> up to the awaits.\<close>

definition flushAll_begin :: "engine \<Rightarrow> engine" where
  "flushAll_begin w = flushMeters_begin (flushVehicles_begin w)"

definition startFlushTimer :: "engine \<Rightarrow> engine" where
  "startFlushTimer w = w\<lparr>flushTimer := True\<rparr>"

definition stopFlushTimer :: "engine \<Rightarrow> engine" where
  "stopFlushTimer w = (if flushTimer w then w\<lparr>flushTimer := False\<rparr> else w)"

definition onModuleInit :: "engine \<Rightarrow> engine" where
  "onModuleInit w = startFlushTimer w"

definition onModuleDestroy :: "engine \<Rightarrow> engine" where
  "onModuleDestroy w = flushAll_begin (stopFlushTimer w)"

text \<open>
  What can happen to the running service, one event per turn of the event loop:
  a push, a tick of the interval timer, the settling of a pending repository
  call (with the environment and the server clock of its transaction), and the
  module's teardown.
\<close>

datatype event =
  PushVehicle VehiclePayloadDto
  | PushMeter MeterPayloadDto
  | TimerTick
  | VehicleFlushSettles "db_call \<Rightarrow> db_error option" int nat
  | MeterFlushSettles "db_call \<Rightarrow> db_error option" int nat
  | ModuleDestroy

fun step :: "(string \<Rightarrow> int option) \<Rightarrow> event \<Rightarrow> engine \<Rightarrow> engine" where
  "step toDate (PushVehicle r) w = pushVehicle r w"
| "step toDate (PushMeter r) w = pushMeter r w"
| "step toDate TimerTick w = (if flushTimer w then flushAll_begin w else w)"
| "step toDate (VehicleFlushSettles fault now i) w = flushVehicles_settle toDate fault now i w"
| "step toDate (MeterFlushSettles fault now i) w = flushMeters_settle toDate fault now i w"
| "step toDate ModuleDestroy w = onModuleDestroy w"

fun run :: "(string \<Rightarrow> int option) \<Rightarrow> event list \<Rightarrow> engine \<Rightarrow> engine" where
  "run toDate [] w = w"
| "run toDate (ev # evs) w = run toDate evs (step toDate ev w)"

text \<open>
  A burst of pushes of one class with the settling of the flush it triggers:
  the records \<open>rs\<close>, then one more record, the pending flush number \<open>i\<close>
  settling either before that last push (\<open>early\<close>) or after it.
\<close>

definition vehicle_burst ::
  "bool \<Rightarrow> (db_call \<Rightarrow> db_error option) \<Rightarrow> int \<Rightarrow> nat \<Rightarrow> VehiclePayloadDto list
     \<Rightarrow> VehiclePayloadDto \<Rightarrow> event list" where
  "vehicle_burst early fault now i rs r =
     map PushVehicle rs
     @ (if early then [VehicleFlushSettles fault now i] else [])
     @ [PushVehicle r]
     @ (if early then [] else [VehicleFlushSettles fault now i])"

definition meter_burst ::
  "bool \<Rightarrow> (db_call \<Rightarrow> db_error option) \<Rightarrow> int \<Rightarrow> nat \<Rightarrow> MeterPayloadDto list
     \<Rightarrow> MeterPayloadDto \<Rightarrow> event list" where
  "meter_burst early fault now i rs r =
     map PushMeter rs
     @ (if early then [MeterFlushSettles fault now i] else [])
     @ [PushMeter r]
     @ (if early then [] else [MeterFlushSettles fault now i])"

text \<open>The service right after construction and \<^verbatim>\<open>onModuleInit\<close>, on empty tables.\<close>

definition new_engine :: "int \<Rightarrow> engine" where
  "new_engine n =
     onModuleInit
       \<lparr>vehicleBuffer = [], meterBuffer = [], flushTimer = False, FLUSH_SIZE = n,
        vehicleFlights = [], meterFlights = [], vehicleRepoCalls = [], meterRepoCalls = [],
        vehicleDb = fresh_session, meterDb = fresh_session\<rparr>"

section \<open>Validation and dispatch (telemetry.service.ts)\<close>

text \<open>
  The payload arrives as parsed JSON (\<^verbatim>\<open>payload: unknown\<close>): an object, seen here
  through its property lookup, with \<open>JUndefined\<close> for a property it lacks.
\<close>

datatype js_number = Finite rat | PosInfinity | NegInfinity | NaN

datatype jsval =
  JUndefined
  | JNull
  | JBoolean bool
  | JNumber js_number
  | JString string
  | JObject

type_synonym plain = "string \<Rightarrow> jsval"

datatype constraint = ConIsString | ConIsNotEmpty | ConIsNumber | ConMin | ConMax | ConIsDateString

text \<open>The decorators of class-validator, with their default options.\<close>

definition isString :: "jsval \<Rightarrow> bool" where
  "isString v = (case v of JString s \<Rightarrow> True | _ \<Rightarrow> False)"

definition isNotEmpty :: "jsval \<Rightarrow> bool" where
  "isNotEmpty v = (v \<noteq> JString [] \<and> v \<noteq> JNull \<and> v \<noteq> JUndefined)"

definition isNumber :: "jsval \<Rightarrow> bool" where
  "isNumber v = (case v of JNumber (Finite x) \<Rightarrow> True | _ \<Rightarrow> False)"

definition min_value :: "rat \<Rightarrow> jsval \<Rightarrow> bool" where
  "min_value m v =
     (case v of JNumber (Finite x) \<Rightarrow> m \<le> x | JNumber PosInfinity \<Rightarrow> True | _ \<Rightarrow> False)"

definition max_value :: "rat \<Rightarrow> jsval \<Rightarrow> bool" where
  "max_value m v =
     (case v of JNumber (Finite x) \<Rightarrow> x \<le> m | JNumber NegInfinity \<Rightarrow> True | _ \<Rightarrow> False)"

text \<open>\<open>isISO8601\<close> is validator.js's \<^verbatim>\<open>isISO8601\<close>.\<close>

definition isDateString :: "(string \<Rightarrow> bool) \<Rightarrow> jsval \<Rightarrow> bool" where
  "isDateString isISO8601 v = (case v of JString s \<Rightarrow> isISO8601 s | _ \<Rightarrow> False)"

definition failed :: "string \<Rightarrow> constraint \<Rightarrow> bool \<Rightarrow> (string \<times> constraint) list" where
  "failed property c ok = (if ok then [] else [(property, c)])"

text \<open>
  \<^verbatim>\<open>validate(vehicleDto)\<close>: one message per decorator of \<^verbatim>\<open>VehiclePayloadDto\<close> that
  the property fails.
\<close>

definition validate_vehicle :: "(string \<Rightarrow> bool) \<Rightarrow> plain \<Rightarrow> (string \<times> constraint) list" where
  "validate_vehicle isISO8601 p =
     failed ''vehicleId'' ConIsString (isString (p ''vehicleId''))
     @ failed ''vehicleId'' ConIsNotEmpty (isNotEmpty (p ''vehicleId''))
     @ failed ''soc'' ConIsNumber (isNumber (p ''soc''))
     @ failed ''soc'' ConMin (min_value 0 (p ''soc''))
     @ failed ''soc'' ConMax (max_value 100 (p ''soc''))
     @ failed ''kwhDeliveredDc'' ConIsNumber (isNumber (p ''kwhDeliveredDc''))
     @ failed ''kwhDeliveredDc'' ConMin (min_value 0 (p ''kwhDeliveredDc''))
     @ failed ''batteryTemp'' ConIsNumber (isNumber (p ''batteryTemp''))
     @ failed ''timestamp'' ConIsDateString (isDateString isISO8601 (p ''timestamp''))"

definition validate_meter :: "(string \<Rightarrow> bool) \<Rightarrow> plain \<Rightarrow> (string \<times> constraint) list" where
  "validate_meter isISO8601 p =
     failed ''meterId'' ConIsString (isString (p ''meterId''))
     @ failed ''meterId'' ConIsNotEmpty (isNotEmpty (p ''meterId''))
     @ failed ''kwhConsumedAc'' ConIsNumber (isNumber (p ''kwhConsumedAc''))
     @ failed ''kwhConsumedAc'' ConMin (min_value 0 (p ''kwhConsumedAc''))
     @ failed ''voltage'' ConIsNumber (isNumber (p ''voltage''))
     @ failed ''voltage'' ConMin (min_value 0 (p ''voltage''))
     @ failed ''timestamp'' ConIsDateString (isDateString isISO8601 (p ''timestamp''))"

text \<open>
  The typed view of a property. The service reads a payload this way only after
  its validation, when the string and number properties are what their
  decorators say.
\<close>

definition string_of :: "jsval \<Rightarrow> string" where
  "string_of v = (case v of JString s \<Rightarrow> s | _ \<Rightarrow> [])"

definition number_of :: "jsval \<Rightarrow> rat" where
  "number_of v = (case v of JNumber (Finite x) \<Rightarrow> x | _ \<Rightarrow> 0)"

definition plainToVehicle :: "plain \<Rightarrow> VehiclePayloadDto" where
  "plainToVehicle p =
     \<lparr>vehicleId = string_of (p ''vehicleId''), soc = number_of (p ''soc''),
      kwhDeliveredDc = number_of (p ''kwhDeliveredDc''),
      batteryTemp = number_of (p ''batteryTemp''), timestamp = string_of (p ''timestamp'')\<rparr>"

definition plainToMeter :: "plain \<Rightarrow> MeterPayloadDto" where
  "plainToMeter p =
     \<lparr>meterId = string_of (p ''meterId''), kwhConsumedAc = number_of (p ''kwhConsumedAc''),
      voltage = number_of (p ''voltage''), timestamp = string_of (p ''timestamp'')\<rparr>"

datatype http_exception =
  BadRequestException string "(string \<times> constraint) list"
  | NotFoundException string

text \<open>\<^verbatim>\<open>exception.getStatus()\<close>, the status the exception filter answers with.\<close>

fun getStatus :: "http_exception \<Rightarrow> nat" where
  "getStatus (BadRequestException m errors) = 400"
| "getStatus (NotFoundException m) = 404"

definition ingestVehicle ::
  "(string \<Rightarrow> bool) \<Rightarrow> plain \<Rightarrow> engine \<Rightarrow> (http_exception + unit) \<times> engine" where
  "ingestVehicle isISO8601 payload w =
     (let vehicleDto = plainToVehicle payload;
          errors = validate_vehicle isISO8601 payload
      in if length errors > 0
         then (Inl (BadRequestException ''Invalid VEHICLE payload'' errors), w)
         else (Inr (), pushVehicle vehicleDto w))"

definition ingestMeter ::
  "(string \<Rightarrow> bool) \<Rightarrow> plain \<Rightarrow> engine \<Rightarrow> (http_exception + unit) \<times> engine" where
  "ingestMeter isISO8601 payload w =
     (let meterDto = plainToMeter payload;
          errors = validate_meter isISO8601 payload
      in if length errors > 0
         then (Inl (BadRequestException ''Invalid METER payload'' errors), w)
         else (Inr (), pushMeter meterDto w))"

text \<open>\<^verbatim>\<open>ingest\<close>: the answer \<open>True\<close> is \<^verbatim>\<open>{ accepted: true }\<close>.\<close>

definition ingest ::
  "(string \<Rightarrow> bool) \<Rightarrow> string \<Rightarrow> plain \<Rightarrow> engine \<Rightarrow> (http_exception + bool) \<times> engine" where
  "ingest isISO8601 type' payload w =
     (if type' = ''VEHICLE'' then
        (case ingestVehicle isISO8601 payload w of
           (Inl e, w') \<Rightarrow> (Inl e, w') | (Inr u, w') \<Rightarrow> (Inr True, w'))
      else if type' = ''METER'' then
        (case ingestMeter isISO8601 payload w of
           (Inl e, w') \<Rightarrow> (Inl e, w') | (Inr u, w') \<Rightarrow> (Inr True, w'))
      else (Inl (BadRequestException ''Unknown telemetry type'' []), w))"


section \<open>Analytics read API (analytics.service.ts)\<close>

text \<open>
  The statements the service sends through \<^verbatim>\<open>dataSource.query\<close>, with their
  parameters, and the data source as the answers it gives to each. A row of a
  current table is its key with its columns.
\<close>

datatype analytics_statement =
  SelectVehicleHistory string string string int
  | SelectMeterHistory string string string int
  | SelectVehicleCurrent string
  | SelectMeterCurrent string
  | FleetSummaryVehicles string string
  | FleetSummaryMeters string string
  | SelectLink string
  | SelectPerformance string string

record performance_columns =
  total_dc_delivered :: rat
  total_ac_consumed :: rat
  efficiency_ratio :: rat
  avg_battery_temp :: "rat option"
  vehicle_readings :: nat
  meter_readings :: nat

record 'report dataSource =
  select_vehicle_history :: "string \<Rightarrow> string \<Rightarrow> string \<Rightarrow> int \<Rightarrow> 'report list"
  select_meter_history :: "string \<Rightarrow> string \<Rightarrow> string \<Rightarrow> int \<Rightarrow> 'report list"
  select_vehicle_current :: "string \<Rightarrow> (string \<times> vehicle_values current_row) list"
  select_meter_current :: "string \<Rightarrow> (string \<times> meter_values current_row) list"
  fleet_summary_vehicles :: "string \<Rightarrow> string \<Rightarrow> 'report list"
  fleet_summary_meters :: "string \<Rightarrow> string \<Rightarrow> 'report list"
  select_link :: "string \<Rightarrow> string list"
  select_performance :: "string \<Rightarrow> string \<Rightarrow> db_error + performance_columns list"

text \<open>
  What a request can throw: an HTTP exception of the service, the
  \<^verbatim>\<open>QueryFailedError\<close> with which \<^verbatim>\<open>dataSource.query\<close> rejects when the server
  refuses the statement, or a \<^verbatim>\<open>TypeError\<close>.
\<close>

datatype thrown = HttpException http_exception | QueryFailedError db_error | TypeError

text \<open>The status \<^verbatim>\<open>AllExceptionsFilter.catch\<close> answers with.\<close>

fun response_status :: "thrown \<Rightarrow> nat" where
  "response_status (HttpException e) = getStatus e"
| "response_status (QueryFailedError e) = 500"
| "response_status TypeError = 500"

record DeviceHistoryQueryDto =
  deviceType :: string
  deviceId :: string
  from' :: string
  to' :: string
  limit :: int

record FleetSummaryQueryDto =
  deviceType :: string
  from' :: string
  to' :: string

text \<open>
  Every function returns its outcome together with the statements it has sent,
  in order.
\<close>

definition getDeviceHistory ::
  "'report dataSource \<Rightarrow> DeviceHistoryQueryDto
     \<Rightarrow> (thrown + 'report list) \<times> analytics_statement list" where
  "getDeviceHistory ds query =
     (let dt = DeviceHistoryQueryDto.deviceType query; i = deviceId query;
          f = DeviceHistoryQueryDto.from' query; t = DeviceHistoryQueryDto.to' query;
          l = limit query
      in if dt = ''VEHICLE'' then
           (Inr (select_vehicle_history ds i f t l), [SelectVehicleHistory i f t l])
         else if dt = ''METER'' then
           (Inr (select_meter_history ds i f t l), [SelectMeterHistory i f t l])
         else
           (Inl (HttpException (BadRequestException (''Unknown device type: '' @ dt) [])), []))"

datatype live_status =
  VehicleStatus string "vehicle_values current_row"
  | MeterStatus string "meter_values current_row"

definition getLiveStatus ::
  "'report dataSource \<Rightarrow> string \<Rightarrow> string
     \<Rightarrow> (thrown + live_status option) \<times> analytics_statement list" where
  "getLiveStatus ds dt i =
     (if dt = ''VEHICLE'' then
        (Inr (case select_vehicle_current ds i of
                [] \<Rightarrow> None | (k, r) # rest \<Rightarrow> Some (VehicleStatus k r)),
         [SelectVehicleCurrent i])
      else
        (Inr (case select_meter_current ds i of
                [] \<Rightarrow> None | (k, r) # rest \<Rightarrow> Some (MeterStatus k r)),
         [SelectMeterCurrent i]))"

definition getFleetSummary ::
  "'report dataSource \<Rightarrow> FleetSummaryQueryDto
     \<Rightarrow> (thrown + 'report list) \<times> analytics_statement list" where
  "getFleetSummary ds query =
     (let dt = FleetSummaryQueryDto.deviceType query;
          f = FleetSummaryQueryDto.from' query; t = FleetSummaryQueryDto.to' query
      in if dt = ''VEHICLE'' then
           (Inr (fleet_summary_vehicles ds f t), [FleetSummaryVehicles f t])
         else if dt = ''METER'' then
           (Inr (fleet_summary_meters ds f t), [FleetSummaryMeters f t])
         else
           (Inl (HttpException (BadRequestException (''Unknown device type: '' @ dt) [])), []))"

text \<open>
  \<^verbatim>\<open>parseFloat\<close> of a \<^verbatim>\<open>numeric\<close> column, which the driver delivers as text, or of
  SQL's \<^verbatim>\<open>NULL\<close>. The rounding to the nearest double is not modelled.
\<close>

definition parseFloat :: "rat option \<Rightarrow> js_number" where
  "parseFloat c = (case c of None \<Rightarrow> NaN | Some x \<Rightarrow> Finite x)"

record vehicle_performance =
  vehicleId :: string
  meterId :: string
  totalAcConsumed :: js_number
  totalDcDelivered :: js_number
  efficiencyRatio :: js_number
  averageBatteryTemp :: js_number

definition getVehiclePerformance ::
  "'report dataSource \<Rightarrow> string \<Rightarrow> (thrown + vehicle_performance) \<times> analytics_statement list" where
  "getVehiclePerformance ds v =
     (case select_link ds v of
        [] \<Rightarrow>
          (Inl (HttpException (NotFoundException
                  (''Vehicle '' @ v @ '' not found or has no linked meter''))),
           [SelectLink v])
      | m # others \<Rightarrow>
          (case select_performance ds v m of
             Inl e \<Rightarrow> (Inl (QueryFailedError e), [SelectLink v, SelectPerformance v m])
           | Inr [] \<Rightarrow> (Inl TypeError, [SelectLink v, SelectPerformance v m])
           | Inr (result # rest) \<Rightarrow>
               (Inr \<lparr>vehicleId = v, meterId = m,
                     totalAcConsumed = parseFloat (Some (total_ac_consumed result)),
                     totalDcDelivered = parseFloat (Some (total_dc_delivered result)),
                     efficiencyRatio = parseFloat (Some (efficiency_ratio result)),
                     averageBatteryTemp = parseFloat (avg_battery_temp result)\<rparr>,
                [SelectLink v, SelectPerformance v m])))"

subsection \<open>What PostgreSQL answers\<close>

record database =
  vehicle_tables :: "vehicle_values store"
  meter_tables :: "meter_values store"
  vehicle_meter_link :: "string \<rightharpoonup> string"

text \<open>\<^verbatim>\<open>WHERE id = $1 AND recorded_at >= NOW() - INTERVAL '24 hours'\<close>.\<close>

definition last_24_hours :: "int \<Rightarrow> string \<Rightarrow> 'v history_row list \<Rightarrow> 'v history_row list" where
  "last_24_hours now k hs =
     filter (\<lambda>h. device_id h = k \<and> recorded_at h \<ge> now - 86400000) hs"

subsection \<open>Arithmetic on numeric (utils/adt/numeric.c)\<close>

text \<open>
  A \<^verbatim>\<open>numeric\<close> is its value with its display scale, the number of fractional
  digits it is shown with. The server keeps it in digits of base 10000 aligned
  at the decimal point: \<open>nbase_weight\<close> is the position of its first non-zero
  digit (\<open>0\<close> for the units digit) and \<open>nbase_first_digit\<close> that digit; both are
  \<open>0\<close> for the value zero.
\<close>

type_synonym numeric_var = "rat \<times> nat"

function nbase_digits :: "nat \<Rightarrow> nat" where
  "nbase_digits n = (if n = 0 then 0 else Suc (nbase_digits (n div 10000)))"
  by pat_completeness auto
termination
  by (relation "measure id") auto

declare nbase_digits.simps [simp del]

definition nbase_weight :: "rat \<Rightarrow> int" where
  "nbase_weight x =
     (if x = 0 then 0
      else if 1 \<le> \<bar>x\<bar> then int (nbase_digits (nat \<lfloor>\<bar>x\<bar>\<rfloor>)) - 1
      else - int (nbase_digits (nat (\<lceil>1 / \<bar>x\<bar>\<rceil> - 1))))"

definition nbase_first_digit :: "rat \<Rightarrow> int" where
  "nbase_first_digit x =
     (let w = nbase_weight x
      in if 0 \<le> w then \<lfloor>\<bar>x\<bar> / 10000 ^ nat w\<rfloor> else \<lfloor>\<bar>x\<bar> * 10000 ^ nat (- w)\<rfloor>)"

text \<open>
  \<^verbatim>\<open>select_div_scale\<close>: the scale of a quotient, chosen to give at least
  \<^verbatim>\<open>NUMERIC_MIN_SIG_DIGITS = 16\<close> significant digits and no fewer fractional digits
  than either operand shows, up to \<^verbatim>\<open>NUMERIC_MAX_DISPLAY_SCALE = 1000\<close>. The weight
  of the quotient is estimated from the operands' weights and first digits.
\<close>

definition select_div_scale :: "numeric_var \<Rightarrow> numeric_var \<Rightarrow> nat" where
  "select_div_scale var1 var2 =
     (let qweight = nbase_weight (fst var1) - nbase_weight (fst var2)
                      - (if nbase_first_digit (fst var1) \<le> nbase_first_digit (fst var2)
                         then 1 else 0);
          rscale = 16 - qweight * 4;
          rscale = max rscale (int (snd var1));
          rscale = max rscale (int (snd var2));
          rscale = max rscale 0;
          rscale = min rscale 1000
      in nat rscale)"

text \<open>
  \<^verbatim>\<open>numeric_div\<close>, the operator \<^verbatim>\<open>/\<close>: a zero divisor is the error
  \<^verbatim>\<open>division_by_zero\<close>; otherwise the quotient is rounded to the selected scale.
\<close>

definition numeric_div :: "numeric_var \<Rightarrow> numeric_var \<Rightarrow> db_error + numeric_var" where
  "numeric_div var1 var2 =
     (if fst var2 = 0 then Inl DivisionByZero
      else (let rscale = select_div_scale var1 var2
            in Inr (pg_round rscale (fst var1 / fst var2), rscale)))"

text \<open>\<^verbatim>\<open>numeric_mul\<close>, the operator \<^verbatim>\<open>*\<close>: exact, the scales add up.\<close>

definition numeric_mul :: "numeric_var \<Rightarrow> numeric_var \<Rightarrow> numeric_var" where
  "numeric_mul var1 var2 = (fst var1 * fst var2, snd var1 + snd var2)"

text \<open>\<^verbatim>\<open>numeric_round\<close>, the function \<^verbatim>\<open>ROUND(x, s)\<close>.\<close>

definition numeric_round :: "numeric_var \<Rightarrow> nat \<Rightarrow> numeric_var" where
  "numeric_round var s = (pg_round s (fst var), s)"

text \<open>
  \<^verbatim>\<open>SUM\<close> over a column of scale \<open>s\<close>: \<^verbatim>\<open>NULL\<close> over no rows, otherwise the exact sum
  at the column's scale. \<^verbatim>\<open>COALESCE(..., 0)\<close> puts the integer literal in the place
  of \<^verbatim>\<open>NULL\<close>. \<^verbatim>\<open>AVG\<close> divides the sum by the number of rows with \<^verbatim>\<open>numeric_div\<close>.
\<close>

definition sum_numeric :: "nat \<Rightarrow> rat list \<Rightarrow> numeric_var option" where
  "sum_numeric s xs = (if xs = [] then None else Some (sum_list xs, s))"

definition coalesce_zero :: "numeric_var option \<Rightarrow> numeric_var" where
  "coalesce_zero x = (case x of None \<Rightarrow> (0, 0) | Some n \<Rightarrow> n)"

definition avg_numeric :: "nat \<Rightarrow> rat list \<Rightarrow> db_error + numeric_var option" where
  "avg_numeric s xs =
     (case sum_numeric s xs of
        None \<Rightarrow> Inr None
      | Some sumX \<Rightarrow> bind_err (numeric_div sumX (of_nat (length xs), 0)) (\<lambda>q. Inr (Some q)))"

text \<open>
  The two aggregations of the performance statement and their cross join: one
  row, unless an operator fails. The columns summed are \<^verbatim>\<open>NUMERIC(10, 4)\<close>, the
  column averaged is \<^verbatim>\<open>NUMERIC(5, 2)\<close>. \<^verbatim>\<open>CASE\<close> evaluates the division only when its
  condition holds.
\<close>

definition performance_statement ::
  "database \<Rightarrow> int \<Rightarrow> string \<Rightarrow> string \<Rightarrow> db_error + performance_columns list" where
  "performance_statement db now v m =
     (let vs = last_24_hours now v (history (vehicle_tables db));
          ms = last_24_hours now m (history (meter_tables db));
          total_dc = coalesce_zero (sum_numeric 4 (map (\<lambda>h. kwh_delivered_dc (readings h)) vs));
          total_ac = coalesce_zero (sum_numeric 4 (map (\<lambda>h. kwh_consumed_ac (readings h)) ms))
      in bind_err (avg_numeric 2 (map (\<lambda>h. battery_temp (readings h)) vs)) (\<lambda>average.
         bind_err (if fst total_ac > 0
                   then bind_err (numeric_div total_dc total_ac) (\<lambda>q.
                          Inr (numeric_round (numeric_mul q (100, 0)) 2))
                   else Inr (0, 0)) (\<lambda>ratio.
           Inr [\<lparr>total_dc_delivered = fst total_dc,
                  total_ac_consumed = fst total_ac,
                  efficiency_ratio = fst ratio,
                  avg_battery_temp = map_option (\<lambda>a. fst (numeric_round a 2)) average,
                  vehicle_readings = length vs,
                  meter_readings = length ms\<rparr>])))"

definition key_lookup :: "(string \<rightharpoonup> 'r) \<Rightarrow> string \<Rightarrow> (string \<times> 'r) list" where
  "key_lookup tbl k = (case tbl k of None \<Rightarrow> [] | Some r \<Rightarrow> [(k, r)])"

text \<open>
  The data source over the tables at server time \<open>now\<close>. \<open>reports\<close> answers the
  statements on the history ranges and on the hourly rollup tables, which are
  not modelled.
\<close>

definition pg_dataSource :: "database \<Rightarrow> int \<Rightarrow> 'report dataSource \<Rightarrow> 'report dataSource" where
  "pg_dataSource db now reports =
     reports
       \<lparr>select_vehicle_current := key_lookup (current (vehicle_tables db)),
        select_meter_current := key_lookup (current (meter_tables db)),
        select_link := (\<lambda>v. case vehicle_meter_link db v of None \<Rightarrow> [] | Some m \<Rightarrow> [m]),
        select_performance := performance_statement db now\<rparr>"

definition no_reports :: "unit dataSource" where
  "no_reports =
     \<lparr>select_vehicle_history = (\<lambda>i f t l. []), select_meter_history = (\<lambda>i f t l. []),
      select_vehicle_current = (\<lambda>i. []), select_meter_current = (\<lambda>i. []),
      fleet_summary_vehicles = (\<lambda>f t. []), fleet_summary_meters = (\<lambda>f t. []),
      select_link = (\<lambda>v. []), select_performance = (\<lambda>v m. Inr [])\<rparr>"


section \<open>Properties the write and read paths are checked against\<close>

text \<open>
  A committed batch seen from the two tables: the history table has one more row
  per record, in order; every record's device has a current row at least as
  recent as the record; every current row is the one stored before or the row
  of a record of the batch; the rows of all other devices are untouched.
\<close>

definition batch_visible :: "int \<Rightarrow> (string \<times> 'v \<times> int) list \<Rightarrow> 'v store \<Rightarrow> 'v store \<Rightarrow> bool" where
  "batch_visible now ps before after \<longleftrightarrow>
     history after = history before @ map (to_history_row now) ps \<and>
     (\<forall>(k, v, t) \<in> set ps. \<exists>row. current after k = Some row \<and> t \<le> last_seen_at row) \<and>
     (\<forall>k row. current after k = Some row \<longrightarrow>
        current before k = Some row
        \<or> (\<exists>v t. (k, v, t) \<in> set ps
                   \<and> row = \<lparr>latest = v, last_seen_at = t, updated_at = now\<rparr>)) \<and>
     (\<forall>k. k \<notin> fst ` set ps \<longrightarrow> current after k = current before k)"

text \<open>
  The error the \<^verbatim>\<open>try\<close> block of \<^verbatim>\<open>ingestBatch\<close> fails with, told from the batch
  and the environment alone: that of the first step that fails, in the order
  history insert, upsert, commit. A statement fails when it cannot be delivered
  or when the server refuses it; the history insert is refused on the first
  record that does not fit its columns, the upsert on a conflict within the
  batch.
\<close>

definition first_refusal :: "('d \<Rightarrow> db_error + 'r) \<Rightarrow> 'd list \<Rightarrow> db_error \<Rightarrow> bool" where
  "first_refusal params records e \<longleftrightarrow>
     (\<exists>i < length records. params (records ! i) = Inl e
        \<and> (\<forall>j < i. \<exists>p. params (records ! j) = Inr p))"

definition try_block_error ::
  "('d \<Rightarrow> db_error + string \<times> 'v \<times> int) \<Rightarrow> (db_call \<Rightarrow> db_error option) \<Rightarrow> int \<Rightarrow> 'd list
     \<Rightarrow> 'v store \<Rightarrow> db_error \<Rightarrow> bool" where
  "try_block_error params fault now records st e \<longleftrightarrow>
     (case fault (Query InsertHistory) of
        Some e1 \<Rightarrow> e = e1
      | None \<Rightarrow>
          first_refusal params records e
          \<or> (\<exists>ps. map params records = map Inr ps
               \<and> (case fault (Query UpsertCurrent) of
                     Some e2 \<Rightarrow> e = e2
                   | None \<Rightarrow>
                      (case on_conflict_do_update (map (to_current_row now) ps) [] (current st) of
                         Inl e3 \<Rightarrow> e = e3
                       | Inr tbl \<Rightarrow> fault CommitTransaction = Some e))))"

text \<open>
  The outcome of one \<^verbatim>\<open>ingestBatch\<close> call is atomic. On success every record of the
  batch was bound to its parameter row and the whole batch is visible, the
  calls being those of one committed transaction. On an error the committed
  tables are as before; the error is that of \<^verbatim>\<open>connect\<close> or of \<^verbatim>\<open>startTransaction\<close>
  when one of them fails, and otherwise a rollback was issued and the error is
  that of the \<^verbatim>\<open>try\<close> block, or that of the rollback when the rollback throws.
\<close>

definition atomic_outcome ::
  "('d \<Rightarrow> db_error + string \<times> 'v \<times> int) \<Rightarrow> (db_call \<Rightarrow> db_error option) \<Rightarrow> int \<Rightarrow> 'd list
     \<Rightarrow> 'v session \<Rightarrow> (db_error + unit) \<times> 'v session \<Rightarrow> bool" where
  "atomic_outcome params fault now records s out =
     (case out of
        (Inr u, s') \<Rightarrow>
          (\<exists>ps. map params records = map Inr ps
                \<and> batch_visible now ps (committed s) (committed s'))
          \<and> calls s' = calls s @ [Connect, StartTransaction, Query InsertHistory,
                                   Query UpsertCurrent, CommitTransaction, Release]
      | (Inl e, s') \<Rightarrow>
          committed s' = committed s
          \<and> (case fault Connect of
                Some e0 \<Rightarrow> e = e0 \<and> calls s' = calls s @ [Connect]
              | None \<Rightarrow>
                 (case fault StartTransaction of
                    Some e0 \<Rightarrow> e = e0 \<and> calls s' = calls s @ [Connect, StartTransaction]
                  | None \<Rightarrow>
                      (\<exists>e0. try_block_error params fault now records (committed s) e0
                            \<and> e = (case fault RollbackTransaction of None \<Rightarrow> e0 | Some r \<Rightarrow> r))
                      \<and> (\<exists>cs. calls s' = calls s @ [Connect, StartTransaction] @ cs
                                         @ [RollbackTransaction, Release]))))"


section \<open>Sample data\<close>

text \<open>A date parser that knows three instants of 12 February 2026.\<close>

definition sample_toDate :: "string \<Rightarrow> int option" where
  "sample_toDate =
     map_of [(''2026-02-12T10:00:00Z'', 1770890400000),
             (''2026-02-12T10:00:30Z'', 1770890430000),
             (''2026-02-12T10:01:00Z'', 1770890460000)]"

definition sample_isISO8601 :: "string \<Rightarrow> bool" where
  "sample_isISO8601 s = (sample_toDate s \<noteq> None)"

definition vehicle_reading :: "string \<Rightarrow> rat \<Rightarrow> string \<Rightarrow> VehiclePayloadDto" where
  "vehicle_reading i s t =
     \<lparr>VehiclePayloadDto.vehicleId = i, soc = s, kwhDeliveredDc = 3, batteryTemp = 31,
      timestamp = t\<rparr>"

definition meter_reading :: "string \<Rightarrow> rat \<Rightarrow> string \<Rightarrow> MeterPayloadDto" where
  "meter_reading i k t =
     \<lparr>MeterPayloadDto.meterId = i, kwhConsumedAc = k, voltage = 232, timestamp = t\<rparr>"

text \<open>
  A database at 10:01:00 with vehicle \<^verbatim>\<open>V001\<close> linked to meter \<^verbatim>\<open>M001\<close>, two vehicle
  readings and one meter reading within the last day, and a vehicle \<^verbatim>\<open>V002\<close> whose
  meter \<^verbatim>\<open>M002\<close> has reported nothing.
\<close>

definition sample_db :: database where
  "sample_db =
     \<lparr>vehicle_tables =
        \<lparr>history =
           [\<lparr>device_id = ''V001'',
             readings = \<lparr>soc = 72, kwh_delivered_dc = 1, battery_temp = 31\<rparr>,
             recorded_at = 1770890400000, ingested_at = 1770890400500\<rparr>,
            \<lparr>device_id = ''V001'',
             readings = \<lparr>soc = 73, kwh_delivered_dc = 2, battery_temp = 32\<rparr>,
             recorded_at = 1770890430000, ingested_at = 1770890430500\<rparr>],
         current =
           [''V001'' \<mapsto> \<lparr>latest = \<lparr>soc = 73, kwh_delivered_dc = 2, battery_temp = 32\<rparr>,
                        last_seen_at = 1770890430000, updated_at = 1770890430500\<rparr>]\<rparr>,
      meter_tables =
        \<lparr>history =
           [\<lparr>device_id = ''M001'',
             readings = \<lparr>kwh_consumed_ac = 4, voltage = 232\<rparr>,
             recorded_at = 1770890400000, ingested_at = 1770890400500\<rparr>],
         current =
           [''M001'' \<mapsto> \<lparr>latest = \<lparr>kwh_consumed_ac = 4, voltage = 232\<rparr>,
                        last_seen_at = 1770890400000, updated_at = 1770890400500\<rparr>]\<rparr>,
      vehicle_meter_link = [''V001'' \<mapsto> ''M001'', ''V002'' \<mapsto> ''M002'']\<rparr>"

text \<open>Two environments: the upsert statement times out; no connection can be taken.\<close>

definition upsert_times_out :: "db_call \<Rightarrow> db_error option" where
  "upsert_times_out c = (if c = Query UpsertCurrent then Some StatementTimeout else None)"

definition no_connection :: "db_call \<Rightarrow> db_error option" where
  "no_connection c = (if c = Connect then Some ConnectionFailure else None)"

text \<open>
  A third environment: the history insert times out and then the connection is
  gone when the rollback is sent.
\<close>

definition insert_times_out_and_rollback_fails :: "db_call \<Rightarrow> db_error option" where
  "insert_times_out_and_rollback_fails c =
     (if c = Query InsertHistory then Some StatementTimeout
      else if c = RollbackTransaction then Some ConnectionFailure
      else None)"




text \<open>
  The service with a threshold of two after two vehicle pushes: the buffer is
  empty again and the flush of the two records is pending.
\<close>

definition busy_engine :: engine where
  "busy_engine =
     run sample_toDate
       [PushVehicle (vehicle_reading ''V003'' 60 ''2026-02-12T10:00:00Z''),
        PushVehicle (vehicle_reading ''V004'' 61 ''2026-02-12T10:00:00Z'')]
       (new_engine 2)"

definition vehicle_plain :: "jsval \<Rightarrow> plain" where
  "vehicle_plain i =
     (\<lambda>property. JUndefined)
       (''vehicleId'' := i,
        ''soc'' := JNumber (Finite 72),
        ''kwhDeliveredDc'' := JNumber (Finite 3),
        ''batteryTemp'' := JNumber (Finite 31),
        ''timestamp'' := JString ''2026-02-12T10:00:00Z'')"


section \<open>Helper facts\<close>

lemmas runner_defs = connect_def startTransaction_def query_insert_history_def
  query_upsert_current_def commitTransaction_def rollbackTransaction_def release_def
  catch_rollback_def logged_def

lemma ingestBatch_empty: "ingestBatch params fault now [] s = (Inr (), s)"
  by (simp add: ingestBatch_def)

section \<open>The empty batch and the empty buffer\<close>

text \<open>
  C9. \<^verbatim>\<open>ingestBatch\<close> on an empty record list returns at once: the session,
  with its log of calls and both tables, is the one it was given, so no
  connection was taken and no transaction started. A flush of an empty buffer
  (vehicles, meters, or both on a timer tick) leaves the whole engine as it
  was: the buffer, the pending flushes, the repository calls and the database.
\<close>

theorem empty_batch_and_empty_flush_do_nothing:
  "vehicle_ingestBatch toDate fault now [] sv = (Inr (), sv)
   \<and> meter_ingestBatch toDate fault now [] sm = (Inr (), sm)
   \<and> (vehicleBuffer w = [] \<longrightarrow> flushVehicles_begin w = w)
   \<and> (meterBuffer w = [] \<longrightarrow> flushMeters_begin w = w)
   \<and> (vehicleBuffer w = [] \<and> meterBuffer w = [] \<longrightarrow> step toDate TimerTick w = w)"
  by (simp add: vehicle_ingestBatch_def meter_ingestBatch_def ingestBatch_empty
      flushVehicles_begin_def flushMeters_begin_def flushAll_begin_def)

theorem empty_batch_and_empty_flush_do_nothing_witness:
  "vehicleBuffer (new_engine 500) = [] \<and> meterBuffer (new_engine 500) = []
   \<and> flushVehicles_begin (new_engine 500) = new_engine 500
   \<and> flushMeters_begin (new_engine 500) = new_engine 500
   \<and> step sample_toDate TimerTick (new_engine 500) = new_engine 500
   \<and> calls (snd (vehicle_ingestBatch sample_toDate healthy 0 [] fresh_session)) = []"
  using empty_batch_and_empty_flush_do_nothing
    [of sample_toDate healthy 0 fresh_session fresh_session "new_engine 500"]
  by (simp add: new_engine_def onModuleInit_def startFlushTimer_def fresh_session_def)

section \<open>Facts about the column types and the sample data\<close>

lemma pg_round_int [simp]: "pg_round s (of_int n) = of_int n"
proof -
  have "\<bar>of_int n :: rat\<bar> * 10 ^ s + 1 / 2 = of_int (\<bar>n\<bar> * 10 ^ s) + 1 / 2" by simp
  moreover have "\<lfloor>of_int (\<bar>n\<bar> * 10 ^ s) + (1 / 2 :: rat)\<rfloor> = \<bar>n\<bar> * 10 ^ s"
    by (rule floor_unique) simp_all
  ultimately have fl: "\<lfloor>\<bar>of_int n :: rat\<bar> * 10 ^ s + 1 / 2\<rfloor> = \<bar>n\<bar> * 10 ^ s" by simp
  show ?thesis
    unfolding pg_round_def fl
    by (cases "n < 0") (simp_all add: sgn_if)
qed

lemma pg_round_numeral [simp]: "pg_round s (numeral n) = numeral n"
  using pg_round_int [of s "numeral n"] by simp

lemma pg_round_zero [simp]: "pg_round s 0 = 0"
  using pg_round_int [of s 0] by simp

lemmas sample_defs = vehicle_reading_def meter_reading_def sample_toDate_def

lemmas binding_defs = vehicle_params_def meter_params_def vehicle_columns_def
  meter_columns_def varchar_def numeric_def timestamptz_def bind_err_def

lemma V001_at_100000:
  "vehicle_params sample_toDate (vehicle_reading ''V001'' 72 ''2026-02-12T10:00:00Z'') =
     Inr (''V001'', \<lparr>soc = 72, kwh_delivered_dc = 3, battery_temp = 31\<rparr>, 1770890400000)"
  by (simp add: sample_defs binding_defs)

lemma V001_at_100030:
  "vehicle_params sample_toDate (vehicle_reading ''V001'' 73 ''2026-02-12T10:00:30Z'') =
     Inr (''V001'', \<lparr>soc = 73, kwh_delivered_dc = 3, battery_temp = 31\<rparr>, 1770890430000)"
  by (simp add: sample_defs binding_defs)

lemma M001_at_100000:
  "meter_params sample_toDate (meter_reading ''M001'' 4 ''2026-02-12T10:00:00Z'') =
     Inr (''M001'', \<lparr>kwh_consumed_ac = 4, voltage = 232\<rparr>, 1770890400000)"
  by (simp add: sample_defs binding_defs)

lemma M001_at_100030:
  "meter_params sample_toDate (meter_reading ''M001'' 5 ''2026-02-12T10:00:30Z'') =
     Inr (''M001'', \<lparr>kwh_consumed_ac = 5, voltage = 232\<rparr>, 1770890430000)"
  by (simp add: sample_defs binding_defs)

lemmas sample_rows = V001_at_100000 V001_at_100030 M001_at_100000 M001_at_100030

lemma to_current_row_tuple:
  "to_current_row now (k, v, t) = (k, \<lparr>latest = v, last_seen_at = t, updated_at = now\<rparr>)"
  by (simp add: to_current_row_def)

lemma to_history_row_tuple:
  "to_history_row now (k, v, t) =
     \<lparr>device_id = k, readings = v, recorded_at = t, ingested_at = now\<rparr>"
  by (simp add: to_history_row_def)

lemma values_rows_length: "values_rows f rs = Inr ps \<Longrightarrow> length ps = length rs"
  by (induction rs arbitrary: ps) (auto simp: bind_err_def split: sum.splits)

text \<open>
  The statement goes through exactly when every record binds, to the rows of the
  records in order; it is refused with the error of the first record that does
  not.
\<close>

lemma values_rows_Inr_iff: "values_rows f rs = Inr ps \<longleftrightarrow> map f rs = map Inr ps"
proof (induction rs arbitrary: ps)
  case Nil
  show ?case by auto
next
  case (Cons r rs)
  show ?case
  proof (cases "f r")
    case (Inl e)
    then show ?thesis by (cases ps) (auto simp: bind_err_def)
  next
    case bound: (Inr x)
    show ?thesis
    proof (cases "values_rows f rs")
      case (Inl e)
      with bound show ?thesis
        by (cases ps) (auto simp: bind_err_def Cons.IH [symmetric])
    next
      case (Inr xs)
      with bound show ?thesis
        by (cases ps) (auto simp: bind_err_def Cons.IH [symmetric])
    qed
  qed
qed

lemma first_refusal_Nil: "\<not> first_refusal f [] e"
  by (simp add: first_refusal_def)

lemma first_refusal_Cons_refused: "f r = Inl e' \<Longrightarrow> first_refusal f (r # rs) e \<longleftrightarrow> e = e'"
proof
  assume r: "f r = Inl e'" and "first_refusal f (r # rs) e"
  then obtain i where i: "i < length (r # rs)" "f ((r # rs) ! i) = Inl e"
    and before: "\<forall>j < i. \<exists>p. f ((r # rs) ! j) = Inr p"
    unfolding first_refusal_def by blast
  show "e = e'"
  proof (cases i)
    case 0
    with i r show ?thesis by simp
  next
    case (Suc n)
    with before have "\<exists>p. f ((r # rs) ! 0) = Inr p" by blast
    with r show ?thesis by simp
  qed
next
  assume "f r = Inl e'" and "e = e'"
  then have "0 < length (r # rs) \<and> f ((r # rs) ! 0) = Inl e
             \<and> (\<forall>j < 0. \<exists>p. f ((r # rs) ! j) = Inr p)" by simp
  then show "first_refusal f (r # rs) e"
    unfolding first_refusal_def by blast
qed

lemma first_refusal_Cons_bound:
  "f r = Inr x \<Longrightarrow> first_refusal f (r # rs) e \<longleftrightarrow> first_refusal f rs e"
proof
  assume r: "f r = Inr x" and "first_refusal f (r # rs) e"
  then obtain i where i: "i < length (r # rs)" "f ((r # rs) ! i) = Inl e"
    and before: "\<forall>j < i. \<exists>p. f ((r # rs) ! j) = Inr p"
    unfolding first_refusal_def by blast
  from i r obtain n where n: "i = Suc n" by (cases i) auto
  have "\<exists>p. f (rs ! j) = Inr p" if "j < n" for j
    using before [rule_format, of "Suc j"] that n by simp
  with i n have "n < length rs \<and> f (rs ! n) = Inl e \<and> (\<forall>j < n. \<exists>p. f (rs ! j) = Inr p)"
    by simp
  then show "first_refusal f rs e"
    unfolding first_refusal_def by blast
next
  assume r: "f r = Inr x" and "first_refusal f rs e"
  then obtain i where i: "i < length rs" "f (rs ! i) = Inl e"
    and before: "\<forall>j < i. \<exists>p. f (rs ! j) = Inr p"
    unfolding first_refusal_def by blast
  have "\<exists>p. f ((r # rs) ! j) = Inr p" if "j < Suc i" for j
    using that before r by (cases j) auto
  with i have "Suc i < length (r # rs) \<and> f ((r # rs) ! Suc i) = Inl e
               \<and> (\<forall>j < Suc i. \<exists>p. f ((r # rs) ! j) = Inr p)"
    by simp
  then show "first_refusal f (r # rs) e"
    unfolding first_refusal_def by blast
qed

lemma values_rows_Inl_iff: "values_rows f rs = Inl e \<longleftrightarrow> first_refusal f rs e"
proof (induction rs)
  case Nil
  show ?case by (simp add: first_refusal_Nil)
next
  case (Cons r rs)
  show ?case
  proof (cases "f r")
    case (Inl e')
    then show ?thesis
      by (auto simp: bind_err_def first_refusal_Cons_refused)
  next
    case (Inr x)
    then show ?thesis
      using Cons.IH
      by (auto simp: bind_err_def first_refusal_Cons_bound split: sum.splits)
  qed
qed

section \<open>Facts about the conflict clause\<close>

text \<open>A successful upsert never lets a key's \<^verbatim>\<open>last_seen_at\<close> go back.\<close>

lemma upsert_monotone:
  "on_conflict_do_update rows touched tbl = Inr tbl' \<Longrightarrow> tbl k = Some row \<Longrightarrow>
   \<exists>row'. tbl' k = Some row' \<and> last_seen_at row \<le> last_seen_at row'"
proof (induction rows touched tbl arbitrary: row rule: on_conflict_do_update.induct)
  case (1 touched tbl)
  then show ?case by simp
next
  case (2 k' r rest touched tbl)
  show ?case
  proof (cases "tbl k'")
    case None
    with "2.prems" have run: "on_conflict_do_update rest (k' # touched) (tbl(k' \<mapsto> r)) = Inr tbl'"
      and ne: "k \<noteq> k'" by auto
    from ne "2.prems"(2) have "(tbl(k' \<mapsto> r)) k = Some row" by simp
    from "2.IH"(1) [OF None run this] show ?thesis .
  next
    case (Some old)
    show ?thesis
    proof (cases "k' \<in> set touched")
      case True
      with "2.prems"(1) Some show ?thesis by simp
    next
      case False
      show ?thesis
      proof (cases "last_seen_at old < last_seen_at r")
        case True
        with "2.prems"(1) Some False
        have run: "on_conflict_do_update rest (k' # touched) (tbl(k' \<mapsto> r)) = Inr tbl'" by simp
        show ?thesis
        proof (cases "k = k'")
          case same: True
          have "(tbl(k' \<mapsto> r)) k = Some r" by (simp add: same)
          from "2.IH"(2) [OF Some False True run this]
          obtain row' where "tbl' k = Some row'" "last_seen_at r \<le> last_seen_at row'" by blast
          moreover have "row = old" using "2.prems"(2) Some same by simp
          ultimately show ?thesis using True by force
        next
          case diff: False
          then have "(tbl(k' \<mapsto> r)) k = Some row" using "2.prems"(2) by simp
          from "2.IH"(2) [OF Some False True run this] show ?thesis .
        qed
      next
        case stale: False
        with "2.prems"(1) Some False
        have run: "on_conflict_do_update rest touched tbl = Inr tbl'" by simp
        from "2.IH"(3) [OF Some False stale run "2.prems"(2)] show ?thesis .
      qed
    qed
  qed
qed

text \<open>After a successful upsert every proposed row is covered by its key's row.\<close>

lemma upsert_covers:
  "on_conflict_do_update rows touched tbl = Inr tbl' \<Longrightarrow> (k, r) \<in> set rows \<Longrightarrow>
   \<exists>row'. tbl' k = Some row' \<and> last_seen_at r \<le> last_seen_at row'"
proof (induction rows touched tbl rule: on_conflict_do_update.induct)
  case (1 touched tbl)
  then show ?case by simp
next
  case (2 k' r' rest touched tbl)
  show ?case
  proof (cases "(k, r) = (k', r')")
    case here: True
    show ?thesis
    proof (cases "tbl k'")
      case None
      with "2.prems"(1) have run: "on_conflict_do_update rest (k' # touched) (tbl(k' \<mapsto> r')) = Inr tbl'"
        by simp
      have "(tbl(k' \<mapsto> r')) k = Some r" using here by simp
      from upsert_monotone [OF run this] show ?thesis .
    next
      case (Some old)
      show ?thesis
      proof (cases "k' \<in> set touched")
        case True
        with "2.prems"(1) Some show ?thesis by simp
      next
        case False
        show ?thesis
        proof (cases "last_seen_at old < last_seen_at r'")
          case True
          with "2.prems"(1) Some False
          have run: "on_conflict_do_update rest (k' # touched) (tbl(k' \<mapsto> r')) = Inr tbl'" by simp
          have "(tbl(k' \<mapsto> r')) k = Some r" using here by simp
          from upsert_monotone [OF run this] show ?thesis .
        next
          case stale: False
          with "2.prems"(1) Some False
          have run: "on_conflict_do_update rest touched tbl = Inr tbl'" by simp
          have "tbl k = Some old" using Some here by simp
          from upsert_monotone [OF run this]
          obtain row' where "tbl' k = Some row'" "last_seen_at old \<le> last_seen_at row'" by blast
          then show ?thesis using stale here by force
        qed
      qed
    qed
  next
    case later: False
    with "2.prems"(2) have mem: "(k, r) \<in> set rest" by auto
    show ?thesis
    proof (cases "tbl k'")
      case None
      with "2.prems"(1) have run: "on_conflict_do_update rest (k' # touched) (tbl(k' \<mapsto> r')) = Inr tbl'"
        by simp
      from "2.IH"(1) [OF None run mem] show ?thesis .
    next
      case (Some old)
      show ?thesis
      proof (cases "k' \<in> set touched")
        case True
        with "2.prems"(1) Some show ?thesis by simp
      next
        case False
        show ?thesis
        proof (cases "last_seen_at old < last_seen_at r'")
          case True
          with "2.prems"(1) Some False
          have run: "on_conflict_do_update rest (k' # touched) (tbl(k' \<mapsto> r')) = Inr tbl'" by simp
          from "2.IH"(2) [OF Some False True run mem] show ?thesis .
        next
          case stale: False
          with "2.prems"(1) Some False
          have run: "on_conflict_do_update rest touched tbl = Inr tbl'" by simp
          from "2.IH"(3) [OF Some False stale run mem] show ?thesis .
        qed
      qed
    qed
  qed
qed

lemma upsert_frame:
  "on_conflict_do_update rows touched tbl = Inr tbl' \<Longrightarrow> k \<notin> fst ` set rows \<Longrightarrow> tbl' k = tbl k"
  by (induction rows touched tbl rule: on_conflict_do_update.induct)
     (auto split: option.splits if_splits)

text \<open>A row found after a successful upsert was stored before or was proposed.\<close>

lemma upsert_origin:
  "on_conflict_do_update rows touched tbl = Inr tbl' \<Longrightarrow> tbl' k = Some row \<Longrightarrow>
   tbl k = Some row \<or> (k, row) \<in> set rows"
  by (induction rows touched tbl rule: on_conflict_do_update.induct)
     (auto split: option.splits if_splits)

lemma upsert_batch_visible:
  assumes "on_conflict_do_update (map (to_current_row now) ps) [] (current st) = Inr tbl"
  shows "batch_visible now ps st
           \<lparr>history = history st @ map (to_history_row now) ps, current = tbl\<rparr>"
proof -
  have cover: "\<exists>row. tbl k = Some row \<and> t \<le> last_seen_at row" if "(k, v, t) \<in> set ps" for k v t
  proof -
    from that have "to_current_row now (k, v, t) \<in> set (map (to_current_row now) ps)"
      by simp
    then have "(k, \<lparr>latest = v, last_seen_at = t, updated_at = now\<rparr>)
                 \<in> set (map (to_current_row now) ps)"
      by (simp only: to_current_row_tuple)
    from upsert_covers [OF assms this] show ?thesis by simp
  qed
  have keys: "fst ` set (map (to_current_row now) ps) = fst ` set ps"
    by (force simp: to_current_row_def split: prod.splits)
  have frame: "tbl k = current st k" if "k \<notin> fst ` set ps" for k
    using upsert_frame [OF assms] that keys by simp
  have origin: "current st k = Some row
                \<or> (\<exists>v t. (k, v, t) \<in> set ps
                           \<and> row = \<lparr>latest = v, last_seen_at = t, updated_at = now\<rparr>)"
    if "tbl k = Some row" for k row
  proof -
    from upsert_origin [OF assms that]
    show ?thesis
    proof
      assume "current st k = Some row"
      then show ?thesis ..
    next
      assume "(k, row) \<in> set (map (to_current_row now) ps)"
      then obtain k' v t where "(k', v, t) \<in> set ps" "(k, row) = to_current_row now (k', v, t)"
        by auto
      then have "(k, v, t) \<in> set ps \<and> row = \<lparr>latest = v, last_seen_at = t, updated_at = now\<rparr>"
        by (simp add: to_current_row_tuple)
      then show ?thesis by blast
    qed
  qed
  have covered: "\<forall>(k, v, t) \<in> set ps. \<exists>row. tbl k = Some row \<and> t \<le> last_seen_at row"
    using cover by auto
  have framed: "\<forall>k. k \<notin> fst ` set ps \<longrightarrow> tbl k = current st k"
    using frame by blast
  have traced: "\<forall>k row. tbl k = Some row \<longrightarrow>
                  current st k = Some row
                  \<or> (\<exists>v t. (k, v, t) \<in> set ps
                             \<and> row = \<lparr>latest = v, last_seen_at = t, updated_at = now\<rparr>)"
    using origin by blast
  show ?thesis
    unfolding batch_visible_def using covered framed traced by simp
qed

subsection \<open>The invariant, without \<open>Max\<close>\<close>

lemma latest_wins_alt:
  "latest_wins st \<longleftrightarrow>
     (\<forall>k row. current st k = Some row \<longrightarrow>
        (\<forall>h \<in> set (history st). device_id h = k \<longrightarrow> recorded_at h \<le> last_seen_at row) \<and>
        (\<exists>h \<in> set (history st). device_id h = k \<and> recorded_at h = last_seen_at row
              \<and> readings h = latest row)) \<and>
     (\<forall>h \<in> set (history st). current st (device_id h) \<noteq> None)"
proof -
  have fin: "\<And>k. finite (recorded_at ` readings_of st k)"
    by (simp add: readings_of_def)
  have mem: "\<And>k h. h \<in> readings_of st k \<longleftrightarrow> h \<in> set (history st) \<and> device_id h = k"
    by (simp add: readings_of_def)
  show ?thesis
    unfolding latest_wins_def
    apply (rule arg_cong2 [where f = "(\<and>)"])
     apply (rule iff_allI)+
     apply (rule imp_cong [OF refl])
    subgoal for k row
      apply (rule iffI)
       apply (metis (no_types, lifting) Max_ge fin image_eqI mem)
      apply (rule conjI)
       apply (metis empty_iff mem)
      apply (rule conjI)
       apply (rule sym)
       apply (rule Max_eqI [OF fin])
        apply (metis (no_types, lifting) imageE mem)
       apply (metis (no_types, lifting) image_eqI mem)
      apply (metis mem)
      done
    apply simp
    done
qed

lemma latest_wins_empty: "latest_wins empty_store"
  by (simp add: latest_wins_alt empty_store_def)

text \<open>One proposed row, whether it is inserted, replaces the stored row or is dropped.\<close>

lemma upsert_step_keeps:
  assumes inv: "latest_wins \<lparr>history = H, current = tbl\<rparr>"
    and step: "tbl' = tbl \<and> (\<exists>old. tbl k = Some old \<and> t \<le> last_seen_at old)
               \<or> tbl' = tbl(k \<mapsto> \<lparr>latest = v, last_seen_at = t, updated_at = now\<rparr>)
                 \<and> (\<forall>old. tbl k = Some old \<longrightarrow> last_seen_at old < t)"
  shows "latest_wins \<lparr>history = H @ [to_history_row now (k, v, t)], current = tbl'\<rparr>"
  using inv step
  unfolding latest_wins_alt to_history_row_def
  apply (simp only: store.simps set_append list.set prod.case)
  apply (elim conjE disjE exE)
   apply (intro conjI allI impI ballI)
     apply fastforce
    apply fastforce
   apply fastforce
  apply (intro conjI allI impI ballI)
    apply (fastforce split: if_splits)
   apply (fastforce split: if_splits)
  apply (fastforce split: if_splits)
  done

lemma upsert_keeps_latest_wins:
  "on_conflict_do_update (map (to_current_row now) ps) touched tbl = Inr tbl' \<Longrightarrow>
   latest_wins \<lparr>history = H, current = tbl\<rparr> \<Longrightarrow>
   latest_wins \<lparr>history = H @ map (to_history_row now) ps, current = tbl'\<rparr>"
proof (induction ps arbitrary: touched tbl H)
  case Nil
  then show ?case by simp
next
  case (Cons p ps)
  obtain k v t where p: "p = (k, v, t)" by (cases p)
  let ?r = "\<lparr>latest = v, last_seen_at = t, updated_at = now\<rparr>"
  let ?H = "H @ [to_history_row now (k, v, t)]"
  have app: "H @ map (to_history_row now) (p # ps) = ?H @ map (to_history_row now) ps"
    by (simp add: p)
  show ?case
  proof (cases "tbl k")
    case None
    from Cons.prems(1)
    have run: "on_conflict_do_update (map (to_current_row now) ps) (k # touched) (tbl(k \<mapsto> ?r))
                 = Inr tbl'"
      by (simp add: p to_current_row_tuple None)
    have "latest_wins \<lparr>history = ?H, current = tbl(k \<mapsto> ?r)\<rparr>"
      by (rule upsert_step_keeps [OF Cons.prems(2)]) (simp add: None)
    from Cons.IH [OF run this] show ?thesis by (simp only: app)
  next
    case (Some old)
    show ?thesis
    proof (cases "k \<in> set touched")
      case True
      with Cons.prems(1) Some show ?thesis by (simp add: p to_current_row_tuple)
    next
      case False
      show ?thesis
      proof (cases "last_seen_at old < t")
        case True
        from Cons.prems(1)
        have run: "on_conflict_do_update (map (to_current_row now) ps) (k # touched)
                     (tbl(k \<mapsto> ?r)) = Inr tbl'"
          by (simp add: p to_current_row_tuple Some False True)
        have "latest_wins \<lparr>history = ?H, current = tbl(k \<mapsto> ?r)\<rparr>"
          by (rule upsert_step_keeps [OF Cons.prems(2)]) (simp add: Some True)
        from Cons.IH [OF run this] show ?thesis by (simp only: app)
      next
        case stale: False
        from Cons.prems(1)
        have run: "on_conflict_do_update (map (to_current_row now) ps) touched tbl = Inr tbl'"
          by (simp add: p to_current_row_tuple Some False stale)
        have "latest_wins \<lparr>history = ?H, current = tbl\<rparr>"
          by (rule upsert_step_keeps [OF Cons.prems(2)]) (use Some stale in simp)
        from Cons.IH [OF run this] show ?thesis by (simp only: app)
      qed
    qed
  qed
qed

section \<open>Facts about \<^verbatim>\<open>ingestBatch\<close>\<close>

lemma ingestBatch_success:
  assumes "ingestBatch params fault now records s = (Inr u, s')" and "records \<noteq> []"
  shows "\<exists>ps tbl. values_rows params records = Inr ps
           \<and> on_conflict_do_update (map (to_current_row now) ps) [] (current (committed s)) = Inr tbl
           \<and> committed s' = \<lparr>history = history (committed s) @ map (to_history_row now) ps,
                              current = tbl\<rparr>"
  using assms
  by (auto simp: ingestBatch_def runner_defs bind_err_def split: option.splits sum.splits)

lemma ingestBatch_success_calls:
  assumes "ingestBatch params fault now records s = (Inr u, s')" and "records \<noteq> []"
  shows "calls s' = calls s @ [Connect, StartTransaction, Query InsertHistory,
                              Query UpsertCurrent, CommitTransaction, Release]"
  using assms
  by (auto simp: ingestBatch_def runner_defs bind_err_def split: option.splits sum.splits)

lemma ingestBatch_failure:
  assumes "ingestBatch params fault now records s = (Inl e, s')"
  shows "committed s' = committed s"
    and "fault Connect = None \<Longrightarrow> fault StartTransaction = None \<Longrightarrow>
           \<exists>cs. calls s' = calls s @ [Connect, StartTransaction] @ cs
                              @ [RollbackTransaction, Release]"
  using assms
  by (auto simp: ingestBatch_def runner_defs bind_err_def
      split: option.splits sum.splits if_splits)

text \<open>The error of the \<^verbatim>\<open>try\<close> block, step by step.\<close>

lemma try_block_error_steps:
  "try_block_error params fault now records st e \<longleftrightarrow>
     (case fault (Query InsertHistory) of
        Some e1 \<Rightarrow> e = e1
      | None \<Rightarrow>
         (case values_rows params records of
            Inl e1 \<Rightarrow> e = e1
          | Inr ps \<Rightarrow>
             (case fault (Query UpsertCurrent) of
                Some e2 \<Rightarrow> e = e2
              | None \<Rightarrow>
                 (case on_conflict_do_update (map (to_current_row now) ps) [] (current st) of
                    Inl e3 \<Rightarrow> e = e3
                  | Inr tbl \<Rightarrow> fault CommitTransaction = Some e))))"
proof (cases "values_rows params records")
  case (Inl e1)
  then have refused: "first_refusal params records e' \<longleftrightarrow> e' = e1" for e'
    using values_rows_Inl_iff [of params records e'] by auto
  from Inl have "map params records \<noteq> map Inr ps" for ps
    using values_rows_Inr_iff [of params records ps] by simp
  with Inl refused show ?thesis
    by (simp add: try_block_error_def split: option.splits)
next
  case (Inr ps)
  then have bound: "\<not> first_refusal params records e'" for e'
    using values_rows_Inl_iff [of params records e'] by simp
  from Inr have "map params records = map Inr ps' \<longleftrightarrow> ps' = ps" for ps'
    using values_rows_Inr_iff [of params records ps'] by auto
  with Inr bound show ?thesis
    by (simp add: try_block_error_def split: option.splits)
qed

lemma ingestBatch_failure_error:
  assumes "ingestBatch params fault now records s = (Inl e, s')"
  shows "case fault Connect of
           Some e0 \<Rightarrow> e = e0 \<and> calls s' = calls s @ [Connect]
         | None \<Rightarrow>
            (case fault StartTransaction of
               Some e0 \<Rightarrow> e = e0 \<and> calls s' = calls s @ [Connect, StartTransaction]
             | None \<Rightarrow>
                 (\<exists>e0. try_block_error params fault now records (committed s) e0
                       \<and> e = (case fault RollbackTransaction of None \<Rightarrow> e0 | Some r \<Rightarrow> r))
                 \<and> (\<exists>cs. calls s' = calls s @ [Connect, StartTransaction] @ cs
                                    @ [RollbackTransaction, Release]))"
  using assms ingestBatch_failure(2) [OF assms]
  by (auto simp: ingestBatch_def runner_defs bind_err_def try_block_error_steps
      split: option.splits sum.splits if_splits)

lemma ingestBatch_atomic:
  assumes "records \<noteq> []"
  shows "atomic_outcome params fault now records s (ingestBatch params fault now records s)"
proof (cases "ingestBatch params fault now records s")
  case (Pair res s')
  show ?thesis
  proof (cases res)
    case (Inl e)
    with Pair have run: "ingestBatch params fault now records s = (Inl e, s')" by simp
    show ?thesis
      unfolding atomic_outcome_def run
      using ingestBatch_failure(1) [OF run] ingestBatch_failure_error [OF run] by simp
  next
    case (Inr u)
    with Pair have run: "ingestBatch params fault now records s = (Inr u, s')" by simp
    from ingestBatch_success [OF run assms] obtain ps tbl where
      ps: "values_rows params records = Inr ps"
      and up: "on_conflict_do_update (map (to_current_row now) ps) [] (current (committed s))
                 = Inr tbl"
      and st: "committed s' = \<lparr>history = history (committed s) @ map (to_history_row now) ps,
                                current = tbl\<rparr>"
      by blast
    have "batch_visible now ps (committed s) (committed s')"
      unfolding st by (rule upsert_batch_visible [OF up])
    then show ?thesis
      unfolding atomic_outcome_def run
      using ps ingestBatch_success_calls [OF run assms] by (auto simp: values_rows_Inr_iff)
  qed
qed

text \<open>The call against a server that answers every call, as one case distinction.\<close>

lemma ingestBatch_healthy:
  "records \<noteq> [] \<Longrightarrow>
   ingestBatch params healthy now records s =
     (case values_rows params records of
        Inl e \<Rightarrow>
          (Inl e, s\<lparr>working := committed s,
                    calls := calls s @ [Connect, StartTransaction, Query InsertHistory,
                                        RollbackTransaction, Release]\<rparr>)
      | Inr ps \<Rightarrow>
          (case on_conflict_do_update (map (to_current_row now) ps) [] (current (committed s)) of
             Inl e \<Rightarrow>
               (Inl e, s\<lparr>working := committed s,
                         calls := calls s @ [Connect, StartTransaction, Query InsertHistory,
                                             Query UpsertCurrent, RollbackTransaction, Release]\<rparr>)
           | Inr tbl \<Rightarrow>
               (Inr (),
                s\<lparr>committed := \<lparr>history = history (committed s) @ map (to_history_row now) ps,
                                 current = tbl\<rparr>,
                  working := \<lparr>history = history (committed s) @ map (to_history_row now) ps,
                               current = tbl\<rparr>,
                  calls := calls s @ [Connect, StartTransaction, Query InsertHistory,
                                      Query UpsertCurrent, CommitTransaction, Release]\<rparr>)))"
  by (simp add: ingestBatch_def runner_defs bind_err_def healthy_def split: sum.splits)

text \<open>The connection cannot be taken: the error leaves before the \<^verbatim>\<open>try\<close> block.\<close>

lemma ingestBatch_no_connection:
  "records \<noteq> [] \<Longrightarrow> fault Connect = Some e \<Longrightarrow>
   ingestBatch params fault now records s = (Inl e, s\<lparr>calls := calls s @ [Connect]\<rparr>)"
  by (simp add: ingestBatch_def runner_defs)

text \<open>The upsert statement is cut off after the history insert has gone through.\<close>

lemma ingestBatch_upsert_cut_off:
  assumes "records \<noteq> []" and "values_rows params records = Inr ps"
    and "fault Connect = None" and "fault StartTransaction = None"
    and "fault (Query InsertHistory) = None" and "fault (Query UpsertCurrent) = Some e"
    and "fault RollbackTransaction = None"
  shows "ingestBatch params fault now records s =
           (Inl e, s\<lparr>working := committed s,
                     calls := calls s @ [Connect, StartTransaction, Query InsertHistory,
                                         Query UpsertCurrent, RollbackTransaction, Release]\<rparr>)"
  using assms by (simp add: ingestBatch_def runner_defs bind_err_def)

text \<open>The history insert is cut off and the rollback cannot be delivered either.\<close>

lemma ingestBatch_rollback_fails:
  assumes "records \<noteq> []"
    and "fault Connect = None" and "fault StartTransaction = None"
    and "fault (Query InsertHistory) = Some e" and "fault RollbackTransaction = Some e'"
  shows "ingestBatch params fault now records s =
           (Inl e', s\<lparr>working := committed s,
                      calls := calls s @ [Connect, StartTransaction, Query InsertHistory,
                                          RollbackTransaction, Release]\<rparr>)"
  using assms by (simp add: ingestBatch_def runner_defs bind_err_def)

lemma ingestBatch_keeps_latest_wins:
  assumes "latest_wins (committed s)"
  shows "latest_wins (committed (snd (ingestBatch params fault now records s)))"
proof (cases "records = []")
  case True
  with assms show ?thesis by (simp add: ingestBatch_empty)
next
  case False
  show ?thesis
  proof (cases "ingestBatch params fault now records s")
    case (Pair res s')
    show ?thesis
    proof (cases res)
      case (Inl e)
      with Pair have "committed s' = committed s" by (simp add: ingestBatch_failure(1))
      with assms Pair show ?thesis by simp
    next
      case (Inr u)
      with Pair have run: "ingestBatch params fault now records s = (Inr u, s')" by simp
      from ingestBatch_success [OF run False] obtain ps tbl where
        up: "on_conflict_do_update (map (to_current_row now) ps) [] (current (committed s))
               = Inr tbl"
        and st: "committed s' = \<lparr>history = history (committed s) @ map (to_history_row now) ps,
                                  current = tbl\<rparr>"
        by blast
      from assms
      have "latest_wins \<lparr>history = history (committed s), current = current (committed s)\<rparr>"
        by (cases "committed s") simp
      from upsert_keeps_latest_wins [OF up this] show ?thesis
        by (simp add: run st)
    qed
  qed
qed

lemma ingest_batches_keep_latest_wins:
  assumes step: "\<And>fault now records s.
      latest_wins (committed s) \<Longrightarrow> latest_wins (committed (snd (run_batch fault now records s)))"
  shows "latest_wins (committed s) \<Longrightarrow>
         latest_wins (committed (ingest_batches run_batch batches s))"
proof (induction batches arbitrary: s)
  case Nil
  then show ?case by simp
next
  case (Cons b batches)
  obtain fault now records where b: "b = (fault, now, records)" by (cases b)
  from Cons.prems have "latest_wins (committed (snd (run_batch fault now records s)))"
    by (rule step)
  from Cons.IH [OF this] show ?case by (simp add: b)
qed

lemma upsert_stale_key_unchanged:
  "on_conflict_do_update rows touched tbl = Inr tbl' \<Longrightarrow> tbl k = Some row \<Longrightarrow>
   (\<forall>r. (k, r) \<in> set rows \<longrightarrow> last_seen_at r \<le> last_seen_at row) \<Longrightarrow>
   tbl' k = Some row"
proof (induction rows touched tbl rule: on_conflict_do_update.induct)
  case (1 touched tbl)
  then show ?case by simp
next
  case (2 k' r' rest touched tbl)
  from "2.prems"(3) have rest: "\<forall>r. (k, r) \<in> set rest \<longrightarrow> last_seen_at r \<le> last_seen_at row"
    by simp
  show ?case
  proof (cases "k' = k")
    case True
    with "2.prems"(3) have stale: "\<not> last_seen_at row < last_seen_at r'" by auto
    from "2.prems"(2) True have old: "tbl k' = Some row" by simp
    show ?thesis
    proof (cases "k' \<in> set touched")
      case touched: True
      with "2.prems"(1) old show ?thesis by simp
    next
      case False
      with "2.prems"(1) old stale
      have run: "on_conflict_do_update rest touched tbl = Inr tbl'" by simp
      from "2.IH"(3) [OF old False stale run "2.prems"(2) rest] show ?thesis .
    qed
  next
    case other: False
    show ?thesis
    proof (cases "tbl k'")
      case None
      with "2.prems"(1)
      have run: "on_conflict_do_update rest (k' # touched) (tbl(k' \<mapsto> r')) = Inr tbl'" by simp
      have "(tbl(k' \<mapsto> r')) k = Some row" using other "2.prems"(2) by simp
      from "2.IH"(1) [OF None run this rest] show ?thesis .
    next
      case (Some old)
      show ?thesis
      proof (cases "k' \<in> set touched")
        case True
        with "2.prems"(1) Some show ?thesis by simp
      next
        case False
        show ?thesis
        proof (cases "last_seen_at old < last_seen_at r'")
          case True
          with "2.prems"(1) Some False
          have run: "on_conflict_do_update rest (k' # touched) (tbl(k' \<mapsto> r')) = Inr tbl'"
            by simp
          have "(tbl(k' \<mapsto> r')) k = Some row" using other "2.prems"(2) by simp
          from "2.IH"(2) [OF Some False True run this rest] show ?thesis .
        next
          case stale: False
          with "2.prems"(1) Some False
          have run: "on_conflict_do_update rest touched tbl = Inr tbl'" by simp
          from "2.IH"(3) [OF Some False stale run "2.prems"(2) rest] show ?thesis .
        qed
      qed
    qed
  qed
qed

lemma values_rows_origin:
  "values_rows f rs = Inr ps \<Longrightarrow> p \<in> set ps \<Longrightarrow> \<exists>r \<in> set rs. f r = Inr p"
  by (induction rs arbitrary: ps) (auto simp: bind_err_def split: sum.splits)

lemma stale_batch_keeps_row:
  assumes row: "current (committed s) k = Some row"
    and stale: "\<forall>r \<in> set records. \<forall>v t. params r = Inr (k, v, t) \<longrightarrow> t \<le> last_seen_at row"
  shows "current (committed (snd (ingestBatch params fault now records s))) k = Some row"
proof (cases "records = []")
  case True
  with row show ?thesis by (simp add: ingestBatch_empty)
next
  case False
  show ?thesis
  proof (cases "ingestBatch params fault now records s")
    case (Pair res s')
    show ?thesis
    proof (cases res)
      case (Inl e)
      with Pair row show ?thesis by (simp add: ingestBatch_failure(1))
    next
      case (Inr u)
      with Pair have run: "ingestBatch params fault now records s = (Inr u, s')" by simp
      from ingestBatch_success [OF run False] obtain ps tbl where
        ps: "values_rows params records = Inr ps"
        and up: "on_conflict_do_update (map (to_current_row now) ps) [] (current (committed s))
                   = Inr tbl"
        and st: "committed s' = \<lparr>history = history (committed s) @ map (to_history_row now) ps,
                                  current = tbl\<rparr>"
        by blast
      have "last_seen_at r \<le> last_seen_at row"
        if "(k, r) \<in> set (map (to_current_row now) ps)" for r
      proof -
        from that obtain k' v t where p: "(k', v, t) \<in> set ps"
          and eq: "(k, r) = to_current_row now (k', v, t)" by auto
        from eq have k: "k' = k" and t: "last_seen_at r = t"
          by (simp_all add: to_current_row_tuple)
        from values_rows_origin [OF ps p] k obtain x where
          "x \<in> set records" "params x = Inr (k, v, t)" by auto
        with stale t show ?thesis by auto
      qed
      then have "tbl k = Some row"
        using upsert_stale_key_unchanged [OF up row] by blast
      then show ?thesis by (simp add: run st)
    qed
  qed
qed

section \<open>Atomicity of a batch\<close>

text \<open>
  C2. For every non-empty batch, in either repository and whatever the
  environment does, the outcome of \<^verbatim>\<open>ingestBatch\<close> is atomic across the two
  tables. When it returns, every record of the batch was bound to its
  parameter row, has its row in the history table and is covered by its
  device's row in the current table, and the transaction was committed. When it
  throws, the committed history and current tables are exactly as before; a
  failure after the transaction was started is followed by a rollback and the
  release of the runner, and the error thrown is the error of the step that
  failed, except that the error of the rollback takes its place when the
  rollback throws.
\<close>

theorem ingest_batch_is_atomic:
  "(vrecords \<noteq> [] \<longrightarrow>
      atomic_outcome (vehicle_params toDate) fault now vrecords sv
        (vehicle_ingestBatch toDate fault now vrecords sv))
   \<and> (mrecords \<noteq> [] \<longrightarrow>
      atomic_outcome (meter_params toDate) fault now mrecords sm
        (meter_ingestBatch toDate fault now mrecords sm))"
  by (simp add: vehicle_ingestBatch_def meter_ingestBatch_def ingestBatch_atomic)

theorem ingest_batch_is_atomic_witness:
  "[vehicle_reading ''V001'' 72 ''2026-02-12T10:00:00Z''] \<noteq> []
   \<and> [meter_reading ''M001'' 4 ''2026-02-12T10:00:00Z''] \<noteq> []
   \<and> atomic_outcome (vehicle_params sample_toDate) healthy 7
        [vehicle_reading ''V001'' 72 ''2026-02-12T10:00:00Z''] fresh_session
        (vehicle_ingestBatch sample_toDate healthy 7
           [vehicle_reading ''V001'' 72 ''2026-02-12T10:00:00Z''] fresh_session)
   \<and> atomic_outcome (meter_params sample_toDate) upsert_times_out 7
        [meter_reading ''M001'' 4 ''2026-02-12T10:00:00Z''] fresh_session
        (meter_ingestBatch sample_toDate upsert_times_out 7
           [meter_reading ''M001'' 4 ''2026-02-12T10:00:00Z''] fresh_session)
   \<and> fst (vehicle_ingestBatch sample_toDate healthy 7
             [vehicle_reading ''V001'' 72 ''2026-02-12T10:00:00Z''] fresh_session) = Inr ()
   \<and> history (committed (snd (vehicle_ingestBatch sample_toDate healthy 7
             [vehicle_reading ''V001'' 72 ''2026-02-12T10:00:00Z''] fresh_session)))
       = [\<lparr>device_id = ''V001'',
           readings = \<lparr>soc = 72, kwh_delivered_dc = 3, battery_temp = 31\<rparr>,
           recorded_at = 1770890400000, ingested_at = 7\<rparr>]
   \<and> meter_ingestBatch sample_toDate upsert_times_out 7
        [meter_reading ''M001'' 4 ''2026-02-12T10:00:00Z''] fresh_session
       = (Inl StatementTimeout,
          fresh_session\<lparr>calls := [Connect, StartTransaction, Query InsertHistory,
                                   Query UpsertCurrent, RollbackTransaction, Release]\<rparr>)"
proof -
  have vehicles: "[vehicle_reading ''V001'' 72 ''2026-02-12T10:00:00Z''] \<noteq> []"
    and meters: "[meter_reading ''M001'' 4 ''2026-02-12T10:00:00Z''] \<noteq> []"
    by simp_all
  have rows: "values_rows (meter_params sample_toDate)
                [meter_reading ''M001'' 4 ''2026-02-12T10:00:00Z'']
              = Inr [(''M001'', \<lparr>kwh_consumed_ac = 4, voltage = 232\<rparr>, 1770890400000)]"
    by (simp add: sample_rows bind_err_def)
  have cut: "meter_ingestBatch sample_toDate upsert_times_out 7
               [meter_reading ''M001'' 4 ''2026-02-12T10:00:00Z''] fresh_session
             = (Inl StatementTimeout,
                fresh_session\<lparr>calls := [Connect, StartTransaction, Query InsertHistory,
                                         Query UpsertCurrent, RollbackTransaction, Release]\<rparr>)"
    unfolding meter_ingestBatch_def
    by (subst ingestBatch_upsert_cut_off [OF meters rows, where e = StatementTimeout])
       (simp_all add: upsert_times_out_def fresh_session_def)
  have ok: "vehicle_ingestBatch sample_toDate healthy 7
              [vehicle_reading ''V001'' 72 ''2026-02-12T10:00:00Z''] fresh_session
            = (Inr (),
               \<lparr>committed =
                  \<lparr>history = [\<lparr>device_id = ''V001'',
                                readings = \<lparr>soc = 72, kwh_delivered_dc = 3, battery_temp = 31\<rparr>,
                                recorded_at = 1770890400000, ingested_at = 7\<rparr>],
                   current = [''V001'' \<mapsto>
                                \<lparr>latest = \<lparr>soc = 72, kwh_delivered_dc = 3, battery_temp = 31\<rparr>,
                                 last_seen_at = 1770890400000, updated_at = 7\<rparr>]\<rparr>,
                working =
                  \<lparr>history = [\<lparr>device_id = ''V001'',
                                readings = \<lparr>soc = 72, kwh_delivered_dc = 3, battery_temp = 31\<rparr>,
                                recorded_at = 1770890400000, ingested_at = 7\<rparr>],
                   current = [''V001'' \<mapsto>
                                \<lparr>latest = \<lparr>soc = 72, kwh_delivered_dc = 3, battery_temp = 31\<rparr>,
                                 last_seen_at = 1770890400000, updated_at = 7\<rparr>]\<rparr>,
                calls = [Connect, StartTransaction, Query InsertHistory, Query UpsertCurrent,
                         CommitTransaction, Release]\<rparr>)"
    by (simp add: vehicle_ingestBatch_def ingestBatch_healthy sample_rows bind_err_def
        to_current_row_tuple to_history_row_tuple fresh_session_def empty_store_def)
  from ingest_batch_is_atomic
    [where vrecords = "[vehicle_reading ''V001'' 72 ''2026-02-12T10:00:00Z'']"
       and mrecords = "[]" and toDate = sample_toDate and fault = healthy and now = 7
       and sv = fresh_session]
  have a: "atomic_outcome (vehicle_params sample_toDate) healthy 7
        [vehicle_reading ''V001'' 72 ''2026-02-12T10:00:00Z''] fresh_session
        (vehicle_ingestBatch sample_toDate healthy 7
           [vehicle_reading ''V001'' 72 ''2026-02-12T10:00:00Z''] fresh_session)"
    using vehicles by blast
  from ingest_batch_is_atomic
    [where mrecords = "[meter_reading ''M001'' 4 ''2026-02-12T10:00:00Z'']"
       and vrecords = "[]" and toDate = sample_toDate and fault = upsert_times_out and now = 7
       and sm = fresh_session]
  have b: "atomic_outcome (meter_params sample_toDate) upsert_times_out 7
        [meter_reading ''M001'' 4 ''2026-02-12T10:00:00Z''] fresh_session
        (meter_ingestBatch sample_toDate upsert_times_out 7
           [meter_reading ''M001'' 4 ''2026-02-12T10:00:00Z''] fresh_session)"
    using meters by blast
  show ?thesis
    using a b cut by (simp add: ok)
qed

text \<open>
  C2, the error raised. The history insert of a one-record batch times out, and
  the connection is gone when the rollback is sent. The tables are unchanged,
  and the error thrown is the rollback's connection failure, in both
  repositories: the timeout that made the transaction fail is not raised.
\<close>

theorem rollback_error_replaces_the_original:
  "insert_times_out_and_rollback_fails (Query InsertHistory) = Some StatementTimeout
   \<and> try_block_error (vehicle_params sample_toDate) insert_times_out_and_rollback_fails 7
        [vehicle_reading ''V001'' 72 ''2026-02-12T10:00:00Z''] empty_store StatementTimeout
   \<and> vehicle_ingestBatch sample_toDate insert_times_out_and_rollback_fails 7
        [vehicle_reading ''V001'' 72 ''2026-02-12T10:00:00Z''] fresh_session
       = (Inl ConnectionFailure,
          fresh_session\<lparr>calls := [Connect, StartTransaction, Query InsertHistory,
                                   RollbackTransaction, Release]\<rparr>)
   \<and> try_block_error (meter_params sample_toDate) insert_times_out_and_rollback_fails 7
        [meter_reading ''M001'' 4 ''2026-02-12T10:00:00Z''] empty_store StatementTimeout
   \<and> meter_ingestBatch sample_toDate insert_times_out_and_rollback_fails 7
        [meter_reading ''M001'' 4 ''2026-02-12T10:00:00Z''] fresh_session
       = (Inl ConnectionFailure,
          fresh_session\<lparr>calls := [Connect, StartTransaction, Query InsertHistory,
                                   RollbackTransaction, Release]\<rparr>)
   \<and> ConnectionFailure \<noteq> StatementTimeout"
proof -
  have vehicles: "[vehicle_reading ''V001'' 72 ''2026-02-12T10:00:00Z''] \<noteq> []"
    and meters: "[meter_reading ''M001'' 4 ''2026-02-12T10:00:00Z''] \<noteq> []"
    by simp_all
  have v: "vehicle_ingestBatch sample_toDate insert_times_out_and_rollback_fails 7
             [vehicle_reading ''V001'' 72 ''2026-02-12T10:00:00Z''] fresh_session
           = (Inl ConnectionFailure,
              fresh_session\<lparr>calls := [Connect, StartTransaction, Query InsertHistory,
                                       RollbackTransaction, Release]\<rparr>)"
    unfolding vehicle_ingestBatch_def
    by (subst ingestBatch_rollback_fails
          [OF vehicles, where e = StatementTimeout and e' = ConnectionFailure])
       (simp_all add: insert_times_out_and_rollback_fails_def fresh_session_def)
  have m: "meter_ingestBatch sample_toDate insert_times_out_and_rollback_fails 7
             [meter_reading ''M001'' 4 ''2026-02-12T10:00:00Z''] fresh_session
           = (Inl ConnectionFailure,
              fresh_session\<lparr>calls := [Connect, StartTransaction, Query InsertHistory,
                                       RollbackTransaction, Release]\<rparr>)"
    unfolding meter_ingestBatch_def
    by (subst ingestBatch_rollback_fails
          [OF meters, where e = StatementTimeout and e' = ConnectionFailure])
       (simp_all add: insert_times_out_and_rollback_fails_def fresh_session_def)
  have t: "insert_times_out_and_rollback_fails (Query InsertHistory) = Some StatementTimeout"
    by (simp add: insert_times_out_and_rollback_fails_def)
  have tv: "try_block_error (vehicle_params sample_toDate) insert_times_out_and_rollback_fails 7
              [vehicle_reading ''V001'' 72 ''2026-02-12T10:00:00Z''] empty_store StatementTimeout"
    by (simp add: try_block_error_def t)
  have tm: "try_block_error (meter_params sample_toDate) insert_times_out_and_rollback_fails 7
              [meter_reading ''M001'' 4 ''2026-02-12T10:00:00Z''] empty_store StatementTimeout"
    by (simp add: try_block_error_def t)
  show ?thesis
    using v m t tv tm by simp
qed

section \<open>Latest wins\<close>

text \<open>
  C1. Starting from tables on which the invariant holds (the empty tables, for
  one), after any sequence of \<^verbatim>\<open>ingestBatch\<close> calls, committed or failed, every
  current row's \<^verbatim>\<open>last_seen_at\<close> is the maximum \<^verbatim>\<open>recorded_at\<close> among the
  persisted readings of its device and its value columns are those of a
  persisted reading of the device with that instant. In particular a batch
  whose readings for a device are all not later than the device's stored
  \<^verbatim>\<open>last_seen_at\<close> (a single such reading, for one) leaves the device's current
  row as it is. Both hold for vehicles and for meters.
\<close>

theorem current_row_holds_latest_reading:
  "(latest_wins (committed sv) \<longrightarrow>
      latest_wins (committed (ingest_batches (vehicle_ingestBatch toDate) vbatches sv)))
   \<and> (latest_wins (committed sm) \<longrightarrow>
      latest_wins (committed (ingest_batches (meter_ingestBatch toDate) mbatches sm)))
   \<and> (current (committed sv) vk = Some vrow
        \<and> (\<forall>r \<in> set vrecords. \<forall>v t.
              vehicle_params toDate r = Inr (vk, v, t) \<longrightarrow> t \<le> last_seen_at vrow) \<longrightarrow>
      current (committed (snd (vehicle_ingestBatch toDate fault now vrecords sv))) vk
        = Some vrow)
   \<and> (current (committed sm) mk = Some mrow
        \<and> (\<forall>r \<in> set mrecords. \<forall>v t.
              meter_params toDate r = Inr (mk, v, t) \<longrightarrow> t \<le> last_seen_at mrow) \<longrightarrow>
      current (committed (snd (meter_ingestBatch toDate fault now mrecords sm))) mk
        = Some mrow)"
proof (intro conjI impI)
  assume "latest_wins (committed sv)"
  then show "latest_wins (committed (ingest_batches (vehicle_ingestBatch toDate) vbatches sv))"
    by (rule ingest_batches_keep_latest_wins [rotated])
       (simp add: vehicle_ingestBatch_def ingestBatch_keeps_latest_wins)
next
  assume "latest_wins (committed sm)"
  then show "latest_wins (committed (ingest_batches (meter_ingestBatch toDate) mbatches sm))"
    by (rule ingest_batches_keep_latest_wins [rotated])
       (simp add: meter_ingestBatch_def ingestBatch_keeps_latest_wins)
next
  assume "current (committed sv) vk = Some vrow
        \<and> (\<forall>r \<in> set vrecords. \<forall>v t.
              vehicle_params toDate r = Inr (vk, v, t) \<longrightarrow> t \<le> last_seen_at vrow)"
  then show "current (committed (snd (vehicle_ingestBatch toDate fault now vrecords sv))) vk
               = Some vrow"
    unfolding vehicle_ingestBatch_def by (intro stale_batch_keeps_row) blast+
next
  assume "current (committed sm) mk = Some mrow
        \<and> (\<forall>r \<in> set mrecords. \<forall>v t.
              meter_params toDate r = Inr (mk, v, t) \<longrightarrow> t \<le> last_seen_at mrow)"
  then show "current (committed (snd (meter_ingestBatch toDate fault now mrecords sm))) mk
               = Some mrow"
    unfolding meter_ingestBatch_def by (intro stale_batch_keeps_row) blast+
qed

theorem current_row_holds_latest_reading_witness:
  "latest_wins (committed (fresh_session :: vehicle_values session))
   \<and> latest_wins (committed (ingest_batches (vehicle_ingestBatch sample_toDate)
        [(healthy, 1, [vehicle_reading ''V001'' 73 ''2026-02-12T10:00:30Z'']),
         (healthy, 2, [vehicle_reading ''V001'' 72 ''2026-02-12T10:00:00Z''])] fresh_session))
   \<and> current (committed (snd (vehicle_ingestBatch sample_toDate healthy 1
        [vehicle_reading ''V001'' 73 ''2026-02-12T10:00:30Z''] fresh_session))) ''V001''
       = Some \<lparr>latest = \<lparr>soc = 73, kwh_delivered_dc = 3, battery_temp = 31\<rparr>,
                last_seen_at = 1770890430000, updated_at = 1\<rparr>
   \<and> current (committed (snd (vehicle_ingestBatch sample_toDate healthy 2
        [vehicle_reading ''V001'' 72 ''2026-02-12T10:00:00Z'']
        (snd (vehicle_ingestBatch sample_toDate healthy 1
           [vehicle_reading ''V001'' 73 ''2026-02-12T10:00:30Z''] fresh_session))))) ''V001''
       = Some \<lparr>latest = \<lparr>soc = 73, kwh_delivered_dc = 3, battery_temp = 31\<rparr>,
                last_seen_at = 1770890430000, updated_at = 1\<rparr>
   \<and> length (history (committed (ingest_batches (vehicle_ingestBatch sample_toDate)
        [(healthy, 1, [vehicle_reading ''V001'' 73 ''2026-02-12T10:00:30Z'']),
         (healthy, 2, [vehicle_reading ''V001'' 72 ''2026-02-12T10:00:00Z''])] fresh_session)))
       = 2
   \<and> latest_wins (committed (fresh_session :: meter_values session))
   \<and> latest_wins (committed (ingest_batches (meter_ingestBatch sample_toDate)
        [(healthy, 1, [meter_reading ''M001'' 4 ''2026-02-12T10:00:00Z'']),
         (healthy, 2, [meter_reading ''M001'' 5 ''2026-02-12T10:00:30Z''])] fresh_session))
   \<and> current (committed (ingest_batches (meter_ingestBatch sample_toDate)
        [(healthy, 1, [meter_reading ''M001'' 4 ''2026-02-12T10:00:00Z'']),
         (healthy, 2, [meter_reading ''M001'' 5 ''2026-02-12T10:00:30Z''])] fresh_session))
        ''M001''
       = Some \<lparr>latest = \<lparr>kwh_consumed_ac = 5, voltage = 232\<rparr>,
                last_seen_at = 1770890430000, updated_at = 2\<rparr>
   \<and> current (committed (snd (meter_ingestBatch sample_toDate healthy 3
        [meter_reading ''M001'' 4 ''2026-02-12T10:00:00Z'']
        (ingest_batches (meter_ingestBatch sample_toDate)
           [(healthy, 1, [meter_reading ''M001'' 4 ''2026-02-12T10:00:00Z'']),
            (healthy, 2, [meter_reading ''M001'' 5 ''2026-02-12T10:00:30Z''])] fresh_session))))
        ''M001''
       = Some \<lparr>latest = \<lparr>kwh_consumed_ac = 5, voltage = 232\<rparr>,
                last_seen_at = 1770890430000, updated_at = 2\<rparr>"
proof -
  let ?v1 = "vehicle_reading ''V001'' 73 ''2026-02-12T10:00:30Z''"
  let ?v2 = "vehicle_reading ''V001'' 72 ''2026-02-12T10:00:00Z''"
  let ?m1 = "meter_reading ''M001'' 4 ''2026-02-12T10:00:00Z''"
  let ?m2 = "meter_reading ''M001'' 5 ''2026-02-12T10:00:30Z''"
  let ?sv = "snd (vehicle_ingestBatch sample_toDate healthy 1 [?v1] fresh_session)"
  let ?sm = "ingest_batches (meter_ingestBatch sample_toDate)
               [(healthy, 1, [?m1]), (healthy, 2, [?m2])] fresh_session"
  let ?vrow = "\<lparr>latest = \<lparr>soc = 73, kwh_delivered_dc = 3, battery_temp = 31\<rparr>,
                last_seen_at = 1770890430000, updated_at = 1\<rparr>"
  let ?mrow = "\<lparr>latest = \<lparr>kwh_consumed_ac = 5, voltage = 232\<rparr>,
                last_seen_at = 1770890430000, updated_at = 2\<rparr>"
  have start: "latest_wins (committed (fresh_session :: vehicle_values session))"
    "latest_wins (committed (fresh_session :: meter_values session))"
    by (simp_all add: fresh_session_def latest_wins_empty)
  have vrow: "current (committed ?sv) ''V001'' = Some ?vrow"
    by (simp add: vehicle_ingestBatch_def ingestBatch_healthy sample_rows bind_err_def
        to_current_row_tuple to_history_row_tuple fresh_session_def empty_store_def)
  have mrow: "current (committed ?sm) ''M001'' = Some ?mrow"
    by (simp add: meter_ingestBatch_def ingestBatch_healthy sample_rows bind_err_def
        to_current_row_tuple to_history_row_tuple fresh_session_def empty_store_def)
  have vstale: "\<forall>r \<in> set [?v2]. \<forall>v t.
      vehicle_params sample_toDate r = Inr (''V001'', v, t) \<longrightarrow> t \<le> last_seen_at ?vrow"
    by (simp add: sample_rows)
  have mstale: "\<forall>r \<in> set [?m1]. \<forall>v t.
      meter_params sample_toDate r = Inr (''M001'', v, t) \<longrightarrow> t \<le> last_seen_at ?mrow"
    by (simp add: sample_rows)
  note kept = current_row_holds_latest_reading
    [where toDate = sample_toDate and fault = healthy
       and vbatches = "[(healthy, 1, [?v1]), (healthy, 2, [?v2])]"
       and mbatches = "[(healthy, 1, [?m1]), (healthy, 2, [?m2])]"]
  have v: "latest_wins (committed (ingest_batches (vehicle_ingestBatch sample_toDate)
             [(healthy, 1, [?v1]), (healthy, 2, [?v2])] fresh_session))"
    using kept [where sv = fresh_session] start(1) by blast
  have m: "latest_wins (committed ?sm)"
    using kept [where sm = fresh_session] start(2) by blast
  have vkept: "current (committed (snd (vehicle_ingestBatch sample_toDate healthy 2 [?v2] ?sv)))
                 ''V001'' = Some ?vrow"
    using kept [where sv = ?sv and vk = "''V001''" and vrow = ?vrow and vrecords = "[?v2]"
        and now = 2] vrow vstale
    by blast
  have mkept: "current (committed (snd (meter_ingestBatch sample_toDate healthy 3 [?m1] ?sm)))
                 ''M001'' = Some ?mrow"
    using kept [where sm = ?sm and mk = "''M001''" and mrow = ?mrow and mrecords = "[?m1]"
        and now = 3] mrow mstale
    by blast
  have vhist: "length (history (committed (ingest_batches (vehicle_ingestBatch sample_toDate)
        [(healthy, 1, [?v1]), (healthy, 2, [?v2])] fresh_session))) = 2"
    by (simp add: vehicle_ingestBatch_def ingestBatch_healthy sample_rows bind_err_def
        to_current_row_tuple to_history_row_tuple fresh_session_def empty_store_def)
  show ?thesis
    using start v m vrow mrow vkept mkept vhist by blast
qed

section \<open>Facts about the buffer\<close>

lemma run_append: "run toDate (xs @ ys) w = run toDate ys (run toDate xs w)"
  by (induction xs arbitrary: w) simp_all

lemma pushVehicle_below:
  "int (length (vehicleBuffer w)) + 1 < FLUSH_SIZE w \<Longrightarrow>
   pushVehicle r w = w\<lparr>vehicleBuffer := vehicleBuffer w @ [r]\<rparr>"
  by (simp add: pushVehicle_def)

lemma pushVehicle_reaching:
  "FLUSH_SIZE w \<le> int (length (vehicleBuffer w)) + 1 \<Longrightarrow>
   pushVehicle r w =
     w\<lparr>vehicleBuffer := [],
       vehicleFlights := vehicleFlights w @ [vehicleBuffer w @ [r]],
       vehicleRepoCalls := vehicleRepoCalls w @ [vehicleBuffer w @ [r]]\<rparr>"
  by (simp add: pushVehicle_def flushVehicles_begin_def Let_def)

lemma pushes_below_vehicles:
  "int (length (vehicleBuffer w)) + int (length rs) < FLUSH_SIZE w \<Longrightarrow>
   run toDate (map PushVehicle rs) w = w\<lparr>vehicleBuffer := vehicleBuffer w @ rs\<rparr>"
proof (induction rs arbitrary: w)
  case Nil
  then show ?case by simp
next
  case (Cons r rs)
  from Cons.prems have one: "int (length (vehicleBuffer w)) + 1 < FLUSH_SIZE w" by simp
  let ?w = "w\<lparr>vehicleBuffer := vehicleBuffer w @ [r]\<rparr>"
  from Cons.prems have "int (length (vehicleBuffer ?w)) + int (length rs) < FLUSH_SIZE ?w"
    by simp
  from Cons.IH [OF this] show ?case
    by (simp add: pushVehicle_below [OF one])
qed

text \<open>Filling an empty buffer up to the threshold: the last push hands the lot over.\<close>

lemma pushes_reach_threshold_vehicles:
  assumes "1 \<le> FLUSH_SIZE w" and "int (length rs) = FLUSH_SIZE w" and "vehicleBuffer w = []"
  shows "run toDate (map PushVehicle rs) w =
           w\<lparr>vehicleBuffer := [],
             vehicleFlights := vehicleFlights w @ [rs],
             vehicleRepoCalls := vehicleRepoCalls w @ [rs]\<rparr>"
proof -
  from assms(1,2) have ne: "rs \<noteq> []" by auto
  then have split: "rs = butlast rs @ [last rs]" by simp
  have below: "int (length (vehicleBuffer w)) + int (length (butlast rs)) < FLUSH_SIZE w"
    using assms(2,3) ne by (cases rs rule: rev_cases) auto
  have "run toDate (map PushVehicle rs) w
        = run toDate (map PushVehicle (butlast rs) @ [PushVehicle (last rs)]) w"
    by (subst split) simp
  also have "\<dots> = pushVehicle (last rs) (w\<lparr>vehicleBuffer := vehicleBuffer w @ butlast rs\<rparr>)"
    by (simp add: run_append pushes_below_vehicles [OF below])
  also have "\<dots> = w\<lparr>vehicleBuffer := [],
                     vehicleFlights := vehicleFlights w @ [rs],
                     vehicleRepoCalls := vehicleRepoCalls w @ [rs]\<rparr>"
    using assms(2,3) ne by (subst pushVehicle_reaching) (simp_all add: split [symmetric])
  finally show ?thesis .
qed

lemma settle_success_vehicles:
  assumes "vehicleFlights w = pending @ [batch]"
    and "vehicle_ingestBatch toDate fault now batch (vehicleDb w) = (Inr u, db)"
  shows "flushVehicles_settle toDate fault now (length pending) w
           = w\<lparr>vehicleFlights := pending, vehicleDb := db\<rparr>"
  using assms by (simp add: flushVehicles_settle_def remove_nth_def)

lemma pushMeter_below:
  "int (length (meterBuffer w)) + 1 < FLUSH_SIZE w \<Longrightarrow>
   pushMeter r w = w\<lparr>meterBuffer := meterBuffer w @ [r]\<rparr>"
  by (simp add: pushMeter_def)

lemma pushMeter_reaching:
  "FLUSH_SIZE w \<le> int (length (meterBuffer w)) + 1 \<Longrightarrow>
   pushMeter r w =
     w\<lparr>meterBuffer := [],
       meterFlights := meterFlights w @ [meterBuffer w @ [r]],
       meterRepoCalls := meterRepoCalls w @ [meterBuffer w @ [r]]\<rparr>"
  by (simp add: pushMeter_def flushMeters_begin_def Let_def)

lemma pushes_below_meters:
  "int (length (meterBuffer w)) + int (length rs) < FLUSH_SIZE w \<Longrightarrow>
   run toDate (map PushMeter rs) w = w\<lparr>meterBuffer := meterBuffer w @ rs\<rparr>"
proof (induction rs arbitrary: w)
  case Nil
  then show ?case by simp
next
  case (Cons r rs)
  from Cons.prems have one: "int (length (meterBuffer w)) + 1 < FLUSH_SIZE w" by simp
  let ?w = "w\<lparr>meterBuffer := meterBuffer w @ [r]\<rparr>"
  from Cons.prems have "int (length (meterBuffer ?w)) + int (length rs) < FLUSH_SIZE ?w"
    by simp
  from Cons.IH [OF this] show ?case
    by (simp add: pushMeter_below [OF one])
qed

lemma pushes_reach_threshold_meters:
  assumes "1 \<le> FLUSH_SIZE w" and "int (length rs) = FLUSH_SIZE w" and "meterBuffer w = []"
  shows "run toDate (map PushMeter rs) w =
           w\<lparr>meterBuffer := [],
             meterFlights := meterFlights w @ [rs],
             meterRepoCalls := meterRepoCalls w @ [rs]\<rparr>"
proof -
  from assms(1,2) have ne: "rs \<noteq> []" by auto
  then have split: "rs = butlast rs @ [last rs]" by simp
  have below: "int (length (meterBuffer w)) + int (length (butlast rs)) < FLUSH_SIZE w"
    using assms(2,3) ne by (cases rs rule: rev_cases) auto
  have "run toDate (map PushMeter rs) w
        = run toDate (map PushMeter (butlast rs) @ [PushMeter (last rs)]) w"
    by (subst split) simp
  also have "\<dots> = pushMeter (last rs) (w\<lparr>meterBuffer := meterBuffer w @ butlast rs\<rparr>)"
    by (simp add: run_append pushes_below_meters [OF below])
  also have "\<dots> = w\<lparr>meterBuffer := [],
                     meterFlights := meterFlights w @ [rs],
                     meterRepoCalls := meterRepoCalls w @ [rs]\<rparr>"
    using assms(2,3) ne by (subst pushMeter_reaching) (simp_all add: split [symmetric])
  finally show ?thesis .
qed

lemma settle_success_meters:
  assumes "meterFlights w = pending @ [batch]"
    and "meter_ingestBatch toDate fault now batch (meterDb w) = (Inr u, db)"
  shows "flushMeters_settle toDate fault now (length pending) w
           = w\<lparr>meterFlights := pending, meterDb := db\<rparr>"
  using assms by (simp add: flushMeters_settle_def remove_nth_def)

lemma burst_vehicles:
  assumes size: "2 \<le> FLUSH_SIZE w" and len: "int (length rs) = FLUSH_SIZE w"
    and empty: "vehicleBuffer w = []"
  shows "run toDate (map PushVehicle (rs @ [r])) w =
           w\<lparr>vehicleBuffer := [r], vehicleFlights := vehicleFlights w @ [rs],
             vehicleRepoCalls := vehicleRepoCalls w @ [rs]\<rparr>"
    and "vehicle_ingestBatch toDate fault now rs (vehicleDb w) = (Inr u, db) \<Longrightarrow>
         run toDate (vehicle_burst early fault now (length (vehicleFlights w)) rs r) w =
           w\<lparr>vehicleBuffer := [r], vehicleFlights := vehicleFlights w,
             vehicleRepoCalls := vehicleRepoCalls w @ [rs], vehicleDb := db\<rparr>"
proof -
  let ?n = "length (vehicleFlights w)"
  let ?wa = "w\<lparr>vehicleBuffer := [], vehicleFlights := vehicleFlights w @ [rs],
               vehicleRepoCalls := vehicleRepoCalls w @ [rs]\<rparr>"
  from size have one: "1 \<le> FLUSH_SIZE w" by simp
  have filled: "run toDate (map PushVehicle rs) w = ?wa"
    using pushes_reach_threshold_vehicles [OF one len empty] by simp
  have room: "int (length (vehicleBuffer w')) + 1 < FLUSH_SIZE w'"
    if "vehicleBuffer w' = []" "FLUSH_SIZE w' = FLUSH_SIZE w" for w' :: engine
    using that size by simp
  show pending: "run toDate (map PushVehicle (rs @ [r])) w =
           w\<lparr>vehicleBuffer := [r], vehicleFlights := vehicleFlights w @ [rs],
             vehicleRepoCalls := vehicleRepoCalls w @ [rs]\<rparr>"
    by (simp add: run_append filled pushVehicle_below [OF room])
  assume ok: "vehicle_ingestBatch toDate fault now rs (vehicleDb w) = (Inr u, db)"
  show "run toDate (vehicle_burst early fault now ?n rs r) w =
           w\<lparr>vehicleBuffer := [r], vehicleFlights := vehicleFlights w,
             vehicleRepoCalls := vehicleRepoCalls w @ [rs], vehicleDb := db\<rparr>"
  proof (cases early)
    case True
    let ?wc = "?wa\<lparr>vehicleFlights := vehicleFlights w, vehicleDb := db\<rparr>"
    have settled: "flushVehicles_settle toDate fault now ?n ?wa = ?wc"
      by (rule settle_success_vehicles [where batch = rs and u = u]) (simp_all add: ok)
    have "run toDate (vehicle_burst early fault now ?n rs r) w
          = pushVehicle r (flushVehicles_settle toDate fault now ?n (run toDate (map PushVehicle rs) w))"
      using True by (simp add: vehicle_burst_def run_append)
    also have "\<dots> = pushVehicle r ?wc"
      by (simp only: filled settled)
    also have "\<dots> = ?wc\<lparr>vehicleBuffer := vehicleBuffer ?wc @ [r]\<rparr>"
      by (rule pushVehicle_below [OF room]) simp_all
    also have "\<dots> = w\<lparr>vehicleBuffer := [r], vehicleFlights := vehicleFlights w,
                       vehicleRepoCalls := vehicleRepoCalls w @ [rs], vehicleDb := db\<rparr>"
      by simp
    finally show ?thesis .
  next
    case False
    let ?wb = "w\<lparr>vehicleBuffer := [r], vehicleFlights := vehicleFlights w @ [rs],
                 vehicleRepoCalls := vehicleRepoCalls w @ [rs]\<rparr>"
    have settled: "flushVehicles_settle toDate fault now ?n ?wb
                     = ?wb\<lparr>vehicleFlights := vehicleFlights w, vehicleDb := db\<rparr>"
      by (rule settle_success_vehicles [where batch = rs and u = u]) (simp_all add: ok)
    have "run toDate (vehicle_burst early fault now ?n rs r) w
          = flushVehicles_settle toDate fault now ?n (run toDate (map PushVehicle (rs @ [r])) w)"
      using False by (simp add: vehicle_burst_def run_append)
    also have "\<dots> = ?wb\<lparr>vehicleFlights := vehicleFlights w, vehicleDb := db\<rparr>"
      by (simp only: pending settled)
    also have "\<dots> = w\<lparr>vehicleBuffer := [r], vehicleFlights := vehicleFlights w,
                       vehicleRepoCalls := vehicleRepoCalls w @ [rs], vehicleDb := db\<rparr>"
      by simp
    finally show ?thesis .
  qed
qed

lemma burst_meters:
  assumes size: "2 \<le> FLUSH_SIZE w" and len: "int (length rs) = FLUSH_SIZE w"
    and empty: "meterBuffer w = []"
  shows "run toDate (map PushMeter (rs @ [r])) w =
           w\<lparr>meterBuffer := [r], meterFlights := meterFlights w @ [rs],
             meterRepoCalls := meterRepoCalls w @ [rs]\<rparr>"
    and "meter_ingestBatch toDate fault now rs (meterDb w) = (Inr u, db) \<Longrightarrow>
         run toDate (meter_burst early fault now (length (meterFlights w)) rs r) w =
           w\<lparr>meterBuffer := [r], meterFlights := meterFlights w,
             meterRepoCalls := meterRepoCalls w @ [rs], meterDb := db\<rparr>"
proof -
  let ?n = "length (meterFlights w)"
  let ?wa = "w\<lparr>meterBuffer := [], meterFlights := meterFlights w @ [rs],
               meterRepoCalls := meterRepoCalls w @ [rs]\<rparr>"
  from size have one: "1 \<le> FLUSH_SIZE w" by simp
  have filled: "run toDate (map PushMeter rs) w = ?wa"
    using pushes_reach_threshold_meters [OF one len empty] by simp
  have room: "int (length (meterBuffer w')) + 1 < FLUSH_SIZE w'"
    if "meterBuffer w' = []" "FLUSH_SIZE w' = FLUSH_SIZE w" for w' :: engine
    using that size by simp
  show pending: "run toDate (map PushMeter (rs @ [r])) w =
           w\<lparr>meterBuffer := [r], meterFlights := meterFlights w @ [rs],
             meterRepoCalls := meterRepoCalls w @ [rs]\<rparr>"
    by (simp add: run_append filled pushMeter_below [OF room])
  assume ok: "meter_ingestBatch toDate fault now rs (meterDb w) = (Inr u, db)"
  show "run toDate (meter_burst early fault now ?n rs r) w =
           w\<lparr>meterBuffer := [r], meterFlights := meterFlights w,
             meterRepoCalls := meterRepoCalls w @ [rs], meterDb := db\<rparr>"
  proof (cases early)
    case True
    let ?wc = "?wa\<lparr>meterFlights := meterFlights w, meterDb := db\<rparr>"
    have settled: "flushMeters_settle toDate fault now ?n ?wa = ?wc"
      by (rule settle_success_meters [where batch = rs and u = u]) (simp_all add: ok)
    have "run toDate (meter_burst early fault now ?n rs r) w
          = pushMeter r (flushMeters_settle toDate fault now ?n (run toDate (map PushMeter rs) w))"
      using True by (simp add: meter_burst_def run_append)
    also have "\<dots> = pushMeter r ?wc"
      by (simp only: filled settled)
    also have "\<dots> = ?wc\<lparr>meterBuffer := meterBuffer ?wc @ [r]\<rparr>"
      by (rule pushMeter_below [OF room]) simp_all
    also have "\<dots> = w\<lparr>meterBuffer := [r], meterFlights := meterFlights w,
                       meterRepoCalls := meterRepoCalls w @ [rs], meterDb := db\<rparr>"
      by simp
    finally show ?thesis .
  next
    case False
    let ?wb = "w\<lparr>meterBuffer := [r], meterFlights := meterFlights w @ [rs],
                 meterRepoCalls := meterRepoCalls w @ [rs]\<rparr>"
    have settled: "flushMeters_settle toDate fault now ?n ?wb
                     = ?wb\<lparr>meterFlights := meterFlights w, meterDb := db\<rparr>"
      by (rule settle_success_meters [where batch = rs and u = u]) (simp_all add: ok)
    have "run toDate (meter_burst early fault now ?n rs r) w
          = flushMeters_settle toDate fault now ?n (run toDate (map PushMeter (rs @ [r])) w)"
      using False by (simp add: meter_burst_def run_append)
    also have "\<dots> = ?wb\<lparr>meterFlights := meterFlights w, meterDb := db\<rparr>"
      by (simp only: pending settled)
    also have "\<dots> = w\<lparr>meterBuffer := [r], meterFlights := meterFlights w,
                       meterRepoCalls := meterRepoCalls w @ [rs], meterDb := db\<rparr>"
      by simp
    finally show ?thesis .
  qed
qed

lemma ingestBatch_success_history:
  assumes "ingestBatch params fault now records s = (Inr u, s')"
  shows "length (history (committed s')) = length (history (committed s)) + length records"
proof (cases "records = []")
  case True
  with assms show ?thesis by (simp add: ingestBatch_empty)
next
  case False
  from ingestBatch_success [OF assms False] obtain ps tbl where
    ps: "values_rows params records = Inr ps"
    and st: "committed s' = \<lparr>history = history (committed s) @ map (to_history_row now) ps,
                              current = tbl\<rparr>"
    by blast
  show ?thesis by (simp add: st values_rows_length [OF ps])
qed


lemma settle_failure_vehicles:
  assumes "i < length (vehicleFlights w)"
    and "vehicle_ingestBatch toDate fault now (vehicleFlights w ! i) (vehicleDb w) = (Inl e, db)"
  shows "flushVehicles_settle toDate fault now i w =
           w\<lparr>vehicleFlights := remove_nth i (vehicleFlights w), vehicleDb := db,
             vehicleBuffer := (vehicleFlights w ! i) @ vehicleBuffer w\<rparr>"
  using assms by (simp add: flushVehicles_settle_def)

lemma settle_failure_meters:
  assumes "i < length (meterFlights w)"
    and "meter_ingestBatch toDate fault now (meterFlights w ! i) (meterDb w) = (Inl e, db)"
  shows "flushMeters_settle toDate fault now i w =
           w\<lparr>meterFlights := remove_nth i (meterFlights w), meterDb := db,
             meterBuffer := (meterFlights w ! i) @ meterBuffer w\<rparr>"
  using assms by (simp add: flushMeters_settle_def)

lemma V002_at_100000:
  "vehicle_params sample_toDate (vehicle_reading ''V002'' 85 ''2026-02-12T10:00:00Z'') =
     Inr (''V002'', \<lparr>soc = 85, kwh_delivered_dc = 3, battery_temp = 31\<rparr>, 1770890400000)"
  by (simp add: sample_defs binding_defs)

lemma M002_at_100000:
  "meter_params sample_toDate (meter_reading ''M002'' 6 ''2026-02-12T10:00:00Z'') =
     Inr (''M002'', \<lparr>kwh_consumed_ac = 6, voltage = 232\<rparr>, 1770890400000)"
  by (simp add: sample_defs binding_defs)

lemmas engine_defs = new_engine_def onModuleInit_def startFlushTimer_def pushVehicle_def
  pushMeter_def flushVehicles_begin_def flushMeters_begin_def flushAll_begin_def

section \<open>A failed flush\<close>

text \<open>
  C4. When the repository call of a pending flush throws, the whole detached
  batch goes back to the front of its class's buffer, ahead of whatever was
  pushed while the flush was pending: the buffer is the batch followed by its
  content at that moment, the buffer depth of the class grows by the size of
  the batch, the committed tables are untouched, and the next flush of the
  class hands the batch, followed by the newer records, to the repository
  again. Stated for vehicles and for meters.
\<close>

theorem failed_flush_requeues_the_batch:
  "(i < length (vehicleFlights w)
      \<and> fst (vehicle_ingestBatch toDate fault now (vehicleFlights w ! i) (vehicleDb w)) = Inl e
    \<longrightarrow>
      (let batch = vehicleFlights w ! i;
           w' = step toDate (VehicleFlushSettles fault now i) w
       in vehicleBuffer w' = batch @ vehicleBuffer w
          \<and> vehicles (getBufferDepth w') = length batch + vehicles (getBufferDepth w)
          \<and> set batch \<subseteq> set (vehicleBuffer w')
          \<and> committed (vehicleDb w') = committed (vehicleDb w)
          \<and> vehicleFlights w' = remove_nth i (vehicleFlights w)
          \<and> (batch \<noteq> [] \<longrightarrow>
                vehicleRepoCalls (flushVehicles_begin w')
                  = vehicleRepoCalls w @ [batch @ vehicleBuffer w]
                \<and> vehicleBuffer (flushVehicles_begin w') = [])))
   \<and> (j < length (meterFlights w)
      \<and> fst (meter_ingestBatch toDate fault now (meterFlights w ! j) (meterDb w)) = Inl e'
    \<longrightarrow>
      (let batch = meterFlights w ! j;
           w' = step toDate (MeterFlushSettles fault now j) w
       in meterBuffer w' = batch @ meterBuffer w
          \<and> meters (getBufferDepth w') = length batch + meters (getBufferDepth w)
          \<and> set batch \<subseteq> set (meterBuffer w')
          \<and> committed (meterDb w') = committed (meterDb w)
          \<and> meterFlights w' = remove_nth j (meterFlights w)
          \<and> (batch \<noteq> [] \<longrightarrow>
                meterRepoCalls (flushMeters_begin w')
                  = meterRepoCalls w @ [batch @ meterBuffer w]
                \<and> meterBuffer (flushMeters_begin w') = [])))"
proof (intro conjI impI)
  assume a: "i < length (vehicleFlights w)
      \<and> fst (vehicle_ingestBatch toDate fault now (vehicleFlights w ! i) (vehicleDb w)) = Inl e"
  then obtain db where
    run: "vehicle_ingestBatch toDate fault now (vehicleFlights w ! i) (vehicleDb w) = (Inl e, db)"
    by (cases "vehicle_ingestBatch toDate fault now (vehicleFlights w ! i) (vehicleDb w)") auto
  from run have same: "committed db = committed (vehicleDb w)"
    unfolding vehicle_ingestBatch_def by (rule ingestBatch_failure(1))
  from a have i: "i < length (vehicleFlights w)" by simp
  show "let batch = vehicleFlights w ! i;
            w' = step toDate (VehicleFlushSettles fault now i) w
        in vehicleBuffer w' = batch @ vehicleBuffer w
          \<and> vehicles (getBufferDepth w') = length batch + vehicles (getBufferDepth w)
          \<and> set batch \<subseteq> set (vehicleBuffer w')
          \<and> committed (vehicleDb w') = committed (vehicleDb w)
          \<and> vehicleFlights w' = remove_nth i (vehicleFlights w)
          \<and> (batch \<noteq> [] \<longrightarrow>
                vehicleRepoCalls (flushVehicles_begin w')
                  = vehicleRepoCalls w @ [batch @ vehicleBuffer w]
                \<and> vehicleBuffer (flushVehicles_begin w') = [])"
    by (simp add: Let_def settle_failure_vehicles [OF i run] same getBufferDepth_def
        flushVehicles_begin_def)
next
  assume a: "j < length (meterFlights w)
      \<and> fst (meter_ingestBatch toDate fault now (meterFlights w ! j) (meterDb w)) = Inl e'"
  then obtain db where
    run: "meter_ingestBatch toDate fault now (meterFlights w ! j) (meterDb w) = (Inl e', db)"
    by (cases "meter_ingestBatch toDate fault now (meterFlights w ! j) (meterDb w)") auto
  from run have same: "committed db = committed (meterDb w)"
    unfolding meter_ingestBatch_def by (rule ingestBatch_failure(1))
  from a have j: "j < length (meterFlights w)" by simp
  show "let batch = meterFlights w ! j;
            w' = step toDate (MeterFlushSettles fault now j) w
        in meterBuffer w' = batch @ meterBuffer w
          \<and> meters (getBufferDepth w') = length batch + meters (getBufferDepth w)
          \<and> set batch \<subseteq> set (meterBuffer w')
          \<and> committed (meterDb w') = committed (meterDb w)
          \<and> meterFlights w' = remove_nth j (meterFlights w)
          \<and> (batch \<noteq> [] \<longrightarrow>
                meterRepoCalls (flushMeters_begin w')
                  = meterRepoCalls w @ [batch @ meterBuffer w]
                \<and> meterBuffer (flushMeters_begin w') = [])"
    by (simp add: Let_def settle_failure_meters [OF j run] same getBufferDepth_def
        flushMeters_begin_def)
qed

theorem failed_flush_requeues_the_batch_witness:
  "0 < length (vehicleFlights (run sample_toDate
         [PushVehicle (vehicle_reading ''V001'' 72 ''2026-02-12T10:00:00Z''), TimerTick,
          PushVehicle (vehicle_reading ''V002'' 85 ''2026-02-12T10:00:00Z'')] (new_engine 500)))
   \<and> vehicleBuffer (run sample_toDate
         [PushVehicle (vehicle_reading ''V001'' 72 ''2026-02-12T10:00:00Z''), TimerTick,
          PushVehicle (vehicle_reading ''V002'' 85 ''2026-02-12T10:00:00Z''),
          VehicleFlushSettles no_connection 9 0] (new_engine 500))
       = [vehicle_reading ''V001'' 72 ''2026-02-12T10:00:00Z'',
          vehicle_reading ''V002'' 85 ''2026-02-12T10:00:00Z'']
   \<and> vehicles (getBufferDepth (run sample_toDate
         [PushVehicle (vehicle_reading ''V001'' 72 ''2026-02-12T10:00:00Z''), TimerTick,
          PushVehicle (vehicle_reading ''V002'' 85 ''2026-02-12T10:00:00Z''),
          VehicleFlushSettles no_connection 9 0] (new_engine 500))) = 2
   \<and> vehicleRepoCalls (flushVehicles_begin (run sample_toDate
         [PushVehicle (vehicle_reading ''V001'' 72 ''2026-02-12T10:00:00Z''), TimerTick,
          PushVehicle (vehicle_reading ''V002'' 85 ''2026-02-12T10:00:00Z''),
          VehicleFlushSettles no_connection 9 0] (new_engine 500)))
       = [[vehicle_reading ''V001'' 72 ''2026-02-12T10:00:00Z''],
          [vehicle_reading ''V001'' 72 ''2026-02-12T10:00:00Z'',
           vehicle_reading ''V002'' 85 ''2026-02-12T10:00:00Z'']]
   \<and> 0 < length (meterFlights (run sample_toDate
         [PushMeter (meter_reading ''M001'' 4 ''2026-02-12T10:00:00Z''), TimerTick,
          PushMeter (meter_reading ''M002'' 6 ''2026-02-12T10:00:00Z'')] (new_engine 500)))
   \<and> meterBuffer (run sample_toDate
         [PushMeter (meter_reading ''M001'' 4 ''2026-02-12T10:00:00Z''), TimerTick,
          PushMeter (meter_reading ''M002'' 6 ''2026-02-12T10:00:00Z''),
          MeterFlushSettles no_connection 9 0] (new_engine 500))
       = [meter_reading ''M001'' 4 ''2026-02-12T10:00:00Z'',
          meter_reading ''M002'' 6 ''2026-02-12T10:00:00Z'']"
proof -
  let ?v1 = "vehicle_reading ''V001'' 72 ''2026-02-12T10:00:00Z''"
  let ?v2 = "vehicle_reading ''V002'' 85 ''2026-02-12T10:00:00Z''"
  let ?m1 = "meter_reading ''M001'' 4 ''2026-02-12T10:00:00Z''"
  let ?m2 = "meter_reading ''M002'' 6 ''2026-02-12T10:00:00Z''"
  let ?wv = "run sample_toDate [PushVehicle ?v1, TimerTick, PushVehicle ?v2] (new_engine 500)"
  let ?wm = "run sample_toDate [PushMeter ?m1, TimerTick, PushMeter ?m2] (new_engine 500)"
  have wv: "?wv = (new_engine 500)\<lparr>vehicleBuffer := [?v2], vehicleFlights := [[?v1]],
                                    vehicleRepoCalls := [[?v1]]\<rparr>"
    by (simp add: engine_defs Let_def)
  have wm: "?wm = (new_engine 500)\<lparr>meterBuffer := [?m2], meterFlights := [[?m1]],
                                    meterRepoCalls := [[?m1]]\<rparr>"
    by (simp add: engine_defs Let_def)
  have pv: "0 < length (vehicleFlights ?wv)" and pm: "0 < length (meterFlights ?wm)"
    by (simp_all only: wv wm) simp_all
  have fv: "fst (vehicle_ingestBatch sample_toDate no_connection 9 (vehicleFlights ?wv ! 0)
              (vehicleDb ?wv)) = Inl ConnectionFailure"
    by (simp only: wv)
       (simp add: vehicle_ingestBatch_def ingestBatch_no_connection no_connection_def)
  have fm: "fst (meter_ingestBatch sample_toDate no_connection 9 (meterFlights ?wm ! 0)
              (meterDb ?wm)) = Inl ConnectionFailure"
    by (simp only: wm)
       (simp add: meter_ingestBatch_def ingestBatch_no_connection no_connection_def)
  from failed_flush_requeues_the_batch
    [where w = ?wv and i = 0 and toDate = sample_toDate and fault = no_connection and now = 9
       and e = ConnectionFailure and j = 1]
  have v: "vehicleBuffer (step sample_toDate (VehicleFlushSettles no_connection 9 0) ?wv)
             = vehicleFlights ?wv ! 0 @ vehicleBuffer ?wv
           \<and> vehicles (getBufferDepth (step sample_toDate (VehicleFlushSettles no_connection 9 0) ?wv))
             = length (vehicleFlights ?wv ! 0) + vehicles (getBufferDepth ?wv)
           \<and> (vehicleFlights ?wv ! 0 \<noteq> [] \<longrightarrow>
                vehicleRepoCalls (flushVehicles_begin
                    (step sample_toDate (VehicleFlushSettles no_connection 9 0) ?wv))
                = vehicleRepoCalls ?wv @ [vehicleFlights ?wv ! 0 @ vehicleBuffer ?wv])"
    using pv fv by (simp add: Let_def)
  from failed_flush_requeues_the_batch
    [where w = ?wm and j = 0 and toDate = sample_toDate and fault = no_connection and now = 9
       and e' = ConnectionFailure and i = 1]
  have m: "meterBuffer (step sample_toDate (MeterFlushSettles no_connection 9 0) ?wm)
             = meterFlights ?wm ! 0 @ meterBuffer ?wm"
    using pm fm by (simp add: Let_def)
  have unrollv: "run sample_toDate [PushVehicle ?v1, TimerTick, PushVehicle ?v2,
                    VehicleFlushSettles no_connection 9 0] (new_engine 500)
                 = step sample_toDate (VehicleFlushSettles no_connection 9 0) ?wv"
    using run_append [of sample_toDate "[PushVehicle ?v1, TimerTick, PushVehicle ?v2]"
        "[VehicleFlushSettles no_connection 9 0]" "new_engine 500"]
    by simp
  have unrollm: "run sample_toDate [PushMeter ?m1, TimerTick, PushMeter ?m2,
                    MeterFlushSettles no_connection 9 0] (new_engine 500)
                 = step sample_toDate (MeterFlushSettles no_connection 9 0) ?wm"
    using run_append [of sample_toDate "[PushMeter ?m1, TimerTick, PushMeter ?m2]"
        "[MeterFlushSettles no_connection 9 0]" "new_engine 500"]
    by simp
  have bv: "vehicleFlights ?wv ! 0 @ vehicleBuffer ?wv = [?v1, ?v2]"
    and dv: "length (vehicleFlights ?wv ! 0) + vehicles (getBufferDepth ?wv) = 2"
    and bm: "meterFlights ?wm ! 0 @ meterBuffer ?wm = [?m1, ?m2]"
    and cv: "vehicleRepoCalls ?wv = [[?v1]]"
    and nv: "vehicleFlights ?wv ! 0 \<noteq> []"
    by (simp_all only: wv wm) (simp_all add: getBufferDepth_def)
  from v nv
  have retry: "vehicleRepoCalls (flushVehicles_begin
                   (step sample_toDate (VehicleFlushSettles no_connection 9 0) ?wv))
               = [[?v1], [?v1, ?v2]]"
    by (simp only: bv cv) simp
  show ?thesis
    using pv pm v m retry by (simp only: unrollv unrollm bv dv bm)
qed

section \<open>Two readings of one device in one batch\<close>

text \<open>
  The second proposed row for a key that this statement has just inserted is
  refused, whatever the two instants are.
\<close>

lemma upsert_same_new_key_twice:
  "tbl k = None \<Longrightarrow>
   on_conflict_do_update ((k, r1) # (k, r2) # rest) touched tbl = Inl CardinalityViolation"
  by simp

text \<open>
  C3, evaluated on the code. On empty tables and a healthy server, a batch with
  the readings of vehicle \<^verbatim>\<open>V001\<close> at 10:00:00 and at 10:00:30 does not succeed: the
  upsert statement fails with a cardinality violation, the transaction is
  rolled back and \<^verbatim>\<open>ingestBatch\<close> throws; no current row for \<^verbatim>\<open>V001\<close> exists
  afterwards. The same happens in the meter repository. Through the buffer:
  the two readings pushed one after the other and flushed by the timer are
  both back in the buffer once the flush has settled, and the tables are still
  empty.
\<close>

theorem duplicate_device_in_one_batch_is_refused:
  "vehicle_ingestBatch sample_toDate healthy 7
     [vehicle_reading ''V001'' 72 ''2026-02-12T10:00:00Z'',
      vehicle_reading ''V001'' 73 ''2026-02-12T10:00:30Z''] fresh_session
   = (Inl CardinalityViolation,
      fresh_session\<lparr>calls := [Connect, StartTransaction, Query InsertHistory,
                               Query UpsertCurrent, RollbackTransaction, Release]\<rparr>)
   \<and> meter_ingestBatch sample_toDate healthy 7
     [meter_reading ''M001'' 4 ''2026-02-12T10:00:00Z'',
      meter_reading ''M001'' 5 ''2026-02-12T10:00:30Z''] fresh_session
   = (Inl CardinalityViolation,
      fresh_session\<lparr>calls := [Connect, StartTransaction, Query InsertHistory,
                               Query UpsertCurrent, RollbackTransaction, Release]\<rparr>)
   \<and> current (committed (fresh_session :: vehicle_values session)) ''V001'' = None
   \<and> vehicleBuffer (run sample_toDate
         [PushVehicle (vehicle_reading ''V001'' 72 ''2026-02-12T10:00:00Z''),
          PushVehicle (vehicle_reading ''V001'' 73 ''2026-02-12T10:00:30Z''),
          TimerTick, VehicleFlushSettles healthy 7 0] (new_engine 500))
       = [vehicle_reading ''V001'' 72 ''2026-02-12T10:00:00Z'',
          vehicle_reading ''V001'' 73 ''2026-02-12T10:00:30Z'']
   \<and> committed (vehicleDb (run sample_toDate
         [PushVehicle (vehicle_reading ''V001'' 72 ''2026-02-12T10:00:00Z''),
          PushVehicle (vehicle_reading ''V001'' 73 ''2026-02-12T10:00:30Z''),
          TimerTick, VehicleFlushSettles healthy 7 0] (new_engine 500)))
       = empty_store"
proof -
  let ?v1 = "vehicle_reading ''V001'' 72 ''2026-02-12T10:00:00Z''"
  let ?v2 = "vehicle_reading ''V001'' 73 ''2026-02-12T10:00:30Z''"
  let ?gone = "fresh_session\<lparr>calls := [Connect, StartTransaction, Query InsertHistory,
                  Query UpsertCurrent, RollbackTransaction, Release]\<rparr> :: vehicle_values session"
  let ?w = "(new_engine 500)\<lparr>vehicleBuffer := [], vehicleFlights := [[?v1, ?v2]],
                               vehicleRepoCalls := [[?v1, ?v2]]\<rparr>"
  have repo: "vehicle_ingestBatch sample_toDate healthy 7 [?v1, ?v2] fresh_session
                = (Inl CardinalityViolation, ?gone)"
    "meter_ingestBatch sample_toDate healthy 7
       [meter_reading ''M001'' 4 ''2026-02-12T10:00:00Z'',
        meter_reading ''M001'' 5 ''2026-02-12T10:00:30Z''] fresh_session
     = (Inl CardinalityViolation,
        fresh_session\<lparr>calls := [Connect, StartTransaction, Query InsertHistory,
                                 Query UpsertCurrent, RollbackTransaction, Release]\<rparr>)"
    "current (committed (fresh_session :: vehicle_values session)) ''V001'' = None"
    by (simp_all add: vehicle_ingestBatch_def meter_ingestBatch_def ingestBatch_healthy
        sample_rows bind_err_def to_current_row_tuple to_history_row_tuple fresh_session_def
        empty_store_def)
  have pending: "run sample_toDate [PushVehicle ?v1, PushVehicle ?v2, TimerTick] (new_engine 500)
                 = ?w"
    by (simp add: engine_defs Let_def)
  have db: "vehicleDb ?w = fresh_session"
    by (simp add: new_engine_def onModuleInit_def startFlushTimer_def)
  have "flushVehicles_settle sample_toDate healthy 7 0 ?w
        = ?w\<lparr>vehicleFlights := remove_nth 0 (vehicleFlights ?w), vehicleDb := ?gone,
               vehicleBuffer := (vehicleFlights ?w ! 0) @ vehicleBuffer ?w\<rparr>"
    by (rule settle_failure_vehicles [where e = CardinalityViolation])
       (simp_all add: db repo(1))
  then have settled: "vehicleBuffer (flushVehicles_settle sample_toDate healthy 7 0 ?w)
                        = [?v1, ?v2]"
    "committed (vehicleDb (flushVehicles_settle sample_toDate healthy 7 0 ?w)) = empty_store"
    by (simp_all add: fresh_session_def)
  have unroll: "run sample_toDate [PushVehicle ?v1, PushVehicle ?v2, TimerTick,
                   VehicleFlushSettles healthy 7 0] (new_engine 500)
                = step sample_toDate (VehicleFlushSettles healthy 7 0)
                    (run sample_toDate [PushVehicle ?v1, PushVehicle ?v2, TimerTick]
                       (new_engine 500))"
    using run_append [of sample_toDate "[PushVehicle ?v1, PushVehicle ?v2, TimerTick]"
        "[VehicleFlushSettles healthy 7 0]" "new_engine 500"]
    by simp
  have whole: "run sample_toDate [PushVehicle ?v1, PushVehicle ?v2, TimerTick,
                   VehicleFlushSettles healthy 7 0] (new_engine 500)
                = flushVehicles_settle sample_toDate healthy 7 0 ?w"
    by (simp only: unroll pending step.simps)
  show ?thesis
    using repo settled by (simp only: whole)
qed

section \<open>The size trigger\<close>

text \<open>
  C5, as the code has it. With a threshold of at least two, \<open>FLUSH_SIZE\<close> pushes
  into an empty buffer followed by one more push cause exactly one repository
  call: the push that fills the buffer swaps it for an empty one and hands
  exactly the first \<open>FLUSH_SIZE\<close> records over, and the last record waits alone
  in the fresh buffer. Whatever earlier flushes are still pending stay pending.
  When that repository call succeeds, whether it settles before or after the
  last push, the flush is no longer pending, the last record is still the only
  one buffered, and the history table has grown by \<open>FLUSH_SIZE\<close> rows. Stated for
  vehicles and for meters.
\<close>

theorem one_size_triggered_flush:
  "(2 \<le> FLUSH_SIZE w \<and> int (length rs) = FLUSH_SIZE w \<and> vehicleBuffer w = []
    \<longrightarrow>
      (let w1 = run toDate (map PushVehicle (rs @ [r])) w
       in vehicleRepoCalls w1 = vehicleRepoCalls w @ [rs]
          \<and> vehicleFlights w1 = vehicleFlights w @ [rs] \<and> vehicleBuffer w1 = [r])
      \<and> (fst (vehicle_ingestBatch toDate fault now rs (vehicleDb w)) = Inr () \<longrightarrow>
           (let w2 = run toDate
                       (vehicle_burst early fault now (length (vehicleFlights w)) rs r) w
            in vehicleRepoCalls w2 = vehicleRepoCalls w @ [rs]
               \<and> vehicleFlights w2 = vehicleFlights w \<and> vehicleBuffer w2 = [r]
               \<and> length (history (committed (vehicleDb w2)))
                   = length (history (committed (vehicleDb w))) + length rs)))
   \<and> (2 \<le> FLUSH_SIZE w \<and> int (length ms) = FLUSH_SIZE w \<and> meterBuffer w = []
    \<longrightarrow>
      (let w1 = run toDate (map PushMeter (ms @ [m])) w
       in meterRepoCalls w1 = meterRepoCalls w @ [ms]
          \<and> meterFlights w1 = meterFlights w @ [ms] \<and> meterBuffer w1 = [m])
      \<and> (fst (meter_ingestBatch toDate fault now ms (meterDb w)) = Inr () \<longrightarrow>
           (let w2 = run toDate
                       (meter_burst early fault now (length (meterFlights w)) ms m) w
            in meterRepoCalls w2 = meterRepoCalls w @ [ms]
               \<and> meterFlights w2 = meterFlights w \<and> meterBuffer w2 = [m]
               \<and> length (history (committed (meterDb w2)))
                   = length (history (committed (meterDb w))) + length ms)))"
proof (intro conjI impI)
  assume a: "2 \<le> FLUSH_SIZE w \<and> int (length rs) = FLUSH_SIZE w \<and> vehicleBuffer w = []"
  then have h: "2 \<le> FLUSH_SIZE w" "int (length rs) = FLUSH_SIZE w" "vehicleBuffer w = []"
    by simp_all
  show "let w1 = run toDate (map PushVehicle (rs @ [r])) w
        in vehicleRepoCalls w1 = vehicleRepoCalls w @ [rs]
          \<and> vehicleFlights w1 = vehicleFlights w @ [rs] \<and> vehicleBuffer w1 = [r]"
    by (simp only: burst_vehicles(1) [OF h]) (simp add: Let_def)
  assume "fst (vehicle_ingestBatch toDate fault now rs (vehicleDb w)) = Inr ()"
  then obtain db where
    ok: "vehicle_ingestBatch toDate fault now rs (vehicleDb w) = (Inr (), db)"
    by (cases "vehicle_ingestBatch toDate fault now rs (vehicleDb w)") auto
  from ok have grown: "length (history (committed db))
                         = length (history (committed (vehicleDb w))) + length rs"
    unfolding vehicle_ingestBatch_def by (rule ingestBatch_success_history)
  show "let w2 = run toDate (vehicle_burst early fault now (length (vehicleFlights w)) rs r) w
        in vehicleRepoCalls w2 = vehicleRepoCalls w @ [rs]
           \<and> vehicleFlights w2 = vehicleFlights w \<and> vehicleBuffer w2 = [r]
           \<and> length (history (committed (vehicleDb w2)))
               = length (history (committed (vehicleDb w))) + length rs"
    by (simp only: burst_vehicles(2) [OF h ok]) (simp add: Let_def grown)
next
  assume a: "2 \<le> FLUSH_SIZE w \<and> int (length ms) = FLUSH_SIZE w \<and> meterBuffer w = []"
  then have h: "2 \<le> FLUSH_SIZE w" "int (length ms) = FLUSH_SIZE w" "meterBuffer w = []"
    by simp_all
  show "let w1 = run toDate (map PushMeter (ms @ [m])) w
        in meterRepoCalls w1 = meterRepoCalls w @ [ms]
          \<and> meterFlights w1 = meterFlights w @ [ms] \<and> meterBuffer w1 = [m]"
    by (simp only: burst_meters(1) [OF h]) (simp add: Let_def)
  assume "fst (meter_ingestBatch toDate fault now ms (meterDb w)) = Inr ()"
  then obtain db where
    ok: "meter_ingestBatch toDate fault now ms (meterDb w) = (Inr (), db)"
    by (cases "meter_ingestBatch toDate fault now ms (meterDb w)") auto
  from ok have grown: "length (history (committed db))
                         = length (history (committed (meterDb w))) + length ms"
    unfolding meter_ingestBatch_def by (rule ingestBatch_success_history)
  show "let w2 = run toDate (meter_burst early fault now (length (meterFlights w)) ms m) w
        in meterRepoCalls w2 = meterRepoCalls w @ [ms]
           \<and> meterFlights w2 = meterFlights w \<and> meterBuffer w2 = [m]
           \<and> length (history (committed (meterDb w2)))
               = length (history (committed (meterDb w))) + length ms"
    by (simp only: burst_meters(2) [OF h ok]) (simp add: Let_def grown)
qed

theorem one_size_triggered_flush_witness:
  "2 \<le> FLUSH_SIZE busy_engine
   \<and> int (length [vehicle_reading ''V001'' 72 ''2026-02-12T10:00:00Z'',
                    vehicle_reading ''V002'' 85 ''2026-02-12T10:00:00Z''])
       = FLUSH_SIZE busy_engine
   \<and> vehicleBuffer busy_engine = []
   \<and> vehicleFlights busy_engine
       = [[vehicle_reading ''V003'' 60 ''2026-02-12T10:00:00Z'',
           vehicle_reading ''V004'' 61 ''2026-02-12T10:00:00Z'']]
   \<and> fst (vehicle_ingestBatch sample_toDate healthy 7
         [vehicle_reading ''V001'' 72 ''2026-02-12T10:00:00Z'',
          vehicle_reading ''V002'' 85 ''2026-02-12T10:00:00Z''] (vehicleDb busy_engine))
       = Inr ()
   \<and> vehicleRepoCalls (run sample_toDate
         (vehicle_burst False healthy 7 1
            [vehicle_reading ''V001'' 72 ''2026-02-12T10:00:00Z'',
             vehicle_reading ''V002'' 85 ''2026-02-12T10:00:00Z'']
            (vehicle_reading ''V001'' 73 ''2026-02-12T10:00:30Z'')) busy_engine)
       = [[vehicle_reading ''V003'' 60 ''2026-02-12T10:00:00Z'',
           vehicle_reading ''V004'' 61 ''2026-02-12T10:00:00Z''],
          [vehicle_reading ''V001'' 72 ''2026-02-12T10:00:00Z'',
           vehicle_reading ''V002'' 85 ''2026-02-12T10:00:00Z'']]
   \<and> vehicleFlights (run sample_toDate
         (vehicle_burst False healthy 7 1
            [vehicle_reading ''V001'' 72 ''2026-02-12T10:00:00Z'',
             vehicle_reading ''V002'' 85 ''2026-02-12T10:00:00Z'']
            (vehicle_reading ''V001'' 73 ''2026-02-12T10:00:30Z'')) busy_engine)
       = [[vehicle_reading ''V003'' 60 ''2026-02-12T10:00:00Z'',
           vehicle_reading ''V004'' 61 ''2026-02-12T10:00:00Z'']]
   \<and> vehicleBuffer (run sample_toDate
         (vehicle_burst False healthy 7 1
            [vehicle_reading ''V001'' 72 ''2026-02-12T10:00:00Z'',
             vehicle_reading ''V002'' 85 ''2026-02-12T10:00:00Z'']
            (vehicle_reading ''V001'' 73 ''2026-02-12T10:00:30Z'')) busy_engine)
       = [vehicle_reading ''V001'' 73 ''2026-02-12T10:00:30Z'']
   \<and> 2 \<le> FLUSH_SIZE (new_engine 2)
   \<and> int (length [meter_reading ''M001'' 4 ''2026-02-12T10:00:00Z'',
                    meter_reading ''M002'' 6 ''2026-02-12T10:00:00Z''])
       = FLUSH_SIZE (new_engine 2)
   \<and> meterBuffer (new_engine 2) = [] \<and> meterFlights (new_engine 2) = []
   \<and> fst (meter_ingestBatch sample_toDate healthy 7
         [meter_reading ''M001'' 4 ''2026-02-12T10:00:00Z'',
          meter_reading ''M002'' 6 ''2026-02-12T10:00:00Z''] (meterDb (new_engine 2)))
       = Inr ()
   \<and> meterBuffer (run sample_toDate
         (meter_burst True healthy 7 0
            [meter_reading ''M001'' 4 ''2026-02-12T10:00:00Z'',
             meter_reading ''M002'' 6 ''2026-02-12T10:00:00Z'']
            (meter_reading ''M001'' 5 ''2026-02-12T10:00:30Z'')) (new_engine 2))
       = [meter_reading ''M001'' 5 ''2026-02-12T10:00:30Z'']"
proof -
  let ?vs = "[vehicle_reading ''V001'' 72 ''2026-02-12T10:00:00Z'',
              vehicle_reading ''V002'' 85 ''2026-02-12T10:00:00Z'']"
  let ?ms = "[meter_reading ''M001'' 4 ''2026-02-12T10:00:00Z'',
              meter_reading ''M002'' 6 ''2026-02-12T10:00:00Z'']"
  let ?earlier = "[vehicle_reading ''V003'' 60 ''2026-02-12T10:00:00Z'',
                   vehicle_reading ''V004'' 61 ''2026-02-12T10:00:00Z'']"
  have busy: "2 \<le> FLUSH_SIZE busy_engine" "int (length ?vs) = FLUSH_SIZE busy_engine"
    "vehicleBuffer busy_engine = []" "vehicleFlights busy_engine = [?earlier]"
    "vehicleRepoCalls busy_engine = [?earlier]" "vehicleDb busy_engine = fresh_session"
    by (simp_all add: busy_engine_def engine_defs Let_def)
  have start: "2 \<le> FLUSH_SIZE (new_engine 2)" "int (length ?ms) = FLUSH_SIZE (new_engine 2)"
    "meterBuffer (new_engine 2) = []" "meterFlights (new_engine 2) = []"
    "meterDb (new_engine 2) = fresh_session"
    by (simp_all add: new_engine_def onModuleInit_def startFlushTimer_def)
  have okv: "fst (vehicle_ingestBatch sample_toDate healthy 7 ?vs (vehicleDb busy_engine))
               = Inr ()"
    by (simp add: busy vehicle_ingestBatch_def ingestBatch_healthy sample_rows V002_at_100000
        bind_err_def to_current_row_tuple fresh_session_def empty_store_def)
  have okm: "fst (meter_ingestBatch sample_toDate healthy 7 ?ms (meterDb (new_engine 2)))
               = Inr ()"
    by (simp add: start meter_ingestBatch_def ingestBatch_healthy sample_rows M002_at_100000
        bind_err_def to_current_row_tuple fresh_session_def empty_store_def)
  note busy_trigger = one_size_triggered_flush
    [where w = busy_engine and toDate = sample_toDate and fault = healthy and now = 7
       and rs = ?vs and ms = "[]" and early = False
       and r = "vehicle_reading ''V001'' 73 ''2026-02-12T10:00:30Z''"]
  note idle_trigger = one_size_triggered_flush
    [where w = "new_engine 2" and toDate = sample_toDate and fault = healthy and now = 7
       and rs = "[]" and ms = ?ms and early = True
       and m = "meter_reading ''M001'' 5 ''2026-02-12T10:00:30Z''"]
  have v: "vehicleRepoCalls (run sample_toDate
             (vehicle_burst False healthy 7 1 ?vs
                (vehicle_reading ''V001'' 73 ''2026-02-12T10:00:30Z'')) busy_engine)
             = [?earlier, ?vs]
           \<and> vehicleFlights (run sample_toDate
             (vehicle_burst False healthy 7 1 ?vs
                (vehicle_reading ''V001'' 73 ''2026-02-12T10:00:30Z'')) busy_engine)
             = [?earlier]
           \<and> vehicleBuffer (run sample_toDate
             (vehicle_burst False healthy 7 1 ?vs
                (vehicle_reading ''V001'' 73 ''2026-02-12T10:00:30Z'')) busy_engine)
             = [vehicle_reading ''V001'' 73 ''2026-02-12T10:00:30Z'']"
    using busy_trigger busy okv by (simp add: Let_def)
  have m: "meterBuffer (run sample_toDate
             (meter_burst True healthy 7 0 ?ms
                (meter_reading ''M001'' 5 ''2026-02-12T10:00:30Z'')) (new_engine 2))
             = [meter_reading ''M001'' 5 ''2026-02-12T10:00:30Z'']"
    using idle_trigger start okm by (simp add: Let_def)
  show ?thesis
    using busy start okv okm v m by blast
qed

text \<open>
  C5 as stated fails for a threshold of one: with \<^verbatim>\<open>BUFFER_FLUSH_SIZE=1\<close> the
  \<open>FLUSH_SIZE + 1 = 2\<close> pushes into the empty buffer trigger two flushes, one
  per push, and the second record does not stay in the buffer.
\<close>

theorem threshold_one_flushes_on_every_push:
  "FLUSH_SIZE (new_engine 1) = 1
   \<and> vehicleBuffer (new_engine 1) = []
   \<and> vehicleRepoCalls (run sample_toDate
         [PushVehicle (vehicle_reading ''V001'' 72 ''2026-02-12T10:00:00Z''),
          PushVehicle (vehicle_reading ''V002'' 85 ''2026-02-12T10:00:00Z'')] (new_engine 1))
       = [[vehicle_reading ''V001'' 72 ''2026-02-12T10:00:00Z''],
          [vehicle_reading ''V002'' 85 ''2026-02-12T10:00:00Z'']]
   \<and> vehicleBuffer (run sample_toDate
         [PushVehicle (vehicle_reading ''V001'' 72 ''2026-02-12T10:00:00Z''),
          PushVehicle (vehicle_reading ''V002'' 85 ''2026-02-12T10:00:00Z'')] (new_engine 1))
       = []"
  by (simp add: engine_defs Let_def)

section \<open>Facts about the read path\<close>


text \<open>
  A meter payload that passed validation is stored with a consumption that is
  not negative.
\<close>

lemma validated_meter_consumption_nonneg:
  assumes "validate_meter isISO8601 p = []"
    and "meter_params toDate (plainToMeter p) = Inr (k, v, t)"
  shows "0 \<le> kwh_consumed_ac v"
proof -
  from assms(1) obtain x where x: "p ''kwhConsumedAc'' = JNumber (Finite x)" "0 \<le> x"
    by (auto simp: validate_meter_def failed_def min_value_def isNumber_def
        split: jsval.splits js_number.splits if_splits)
  have "0 \<le> pg_round 4 x"
    using x(2) by (simp add: pg_round_def sgn_if)
  with assms(2) x(1) show ?thesis
    by (auto simp: meter_params_def meter_columns_def plainToMeter_def number_of_def numeric_def
        bind_err_def Let_def split: sum.splits if_splits)
qed


















section \<open>The efficiency ratio\<close>




section \<open>The unlinked vehicle\<close>

text \<open>
  C8. For a vehicle identifier without a row in the link table the performance
  query throws a not-found exception, answered with status 404, and the only
  statement it has sent is the link lookup: no aggregation over the history
  tables.
\<close>

theorem unlinked_vehicle_is_not_found:
  "vehicle_meter_link db v = None \<longrightarrow>
     (\<exists>e. getVehiclePerformance (pg_dataSource db now reports) v = (Inl e, [SelectLink v])
          \<and> response_status e = 404)
     \<and> (\<forall>m. SelectPerformance v m
               \<notin> set (snd (getVehiclePerformance (pg_dataSource db now reports) v)))"
  by (simp add: getVehiclePerformance_def pg_dataSource_def)

theorem unlinked_vehicle_is_not_found_witness:
  "vehicle_meter_link sample_db ''V404'' = None
   \<and> (\<exists>e. getVehiclePerformance (pg_dataSource sample_db 1770890460000 no_reports) ''V404''
            = (Inl e, [SelectLink ''V404''])
          \<and> response_status e = 404)"
proof -
  have "vehicle_meter_link sample_db ''V404'' = None"
    by (simp add: sample_db_def)
  with unlinked_vehicle_is_not_found
    [where db = sample_db and v = "''V404''" and now = 1770890460000 and reports = no_reports]
  show ?thesis by blast
qed

section \<open>Live status of an unknown device type\<close>

text \<open>
  C10. For every device type other than \<^verbatim>\<open>VEHICLE\<close>, a valid one or not, the
  live-status lookup sends the point lookup on the meter current table and
  returns that table's row for the identifier, or null; it never throws. The
  history and fleet-summary queries, given a device type that is neither
  \<^verbatim>\<open>VEHICLE\<close> nor \<^verbatim>\<open>METER\<close>, throw a bad-request exception (status 400) without
  sending a statement.
\<close>

theorem live_status_never_rejects_a_device_type:
  "(dt \<noteq> ''VEHICLE'' \<longrightarrow>
      getLiveStatus (pg_dataSource db now reports) dt i
        = (Inr (map_option (MeterStatus i) (current (meter_tables db) i)),
           [SelectMeterCurrent i]))
   \<and> (\<exists>r. fst (getLiveStatus ds dt i) = Inr r)
   \<and> (dt \<noteq> ''VEHICLE'' \<and> dt \<noteq> ''METER'' \<and> DeviceHistoryQueryDto.deviceType hq = dt
        \<and> FleetSummaryQueryDto.deviceType fq = dt \<longrightarrow>
      (\<exists>e. getDeviceHistory ds hq = (Inl e, []) \<and> response_status e = 400)
      \<and> (\<exists>e. getFleetSummary ds fq = (Inl e, []) \<and> response_status e = 400))"
  by (auto simp: getLiveStatus_def getDeviceHistory_def getFleetSummary_def pg_dataSource_def
      key_lookup_def Let_def split: option.splits)

theorem live_status_never_rejects_a_device_type_witness:
  "''BICYCLE'' \<noteq> ''VEHICLE'' \<and> ''BICYCLE'' \<noteq> ''METER''
   \<and> getLiveStatus (pg_dataSource sample_db 1770890460000 no_reports) ''BICYCLE'' ''M001''
       = (Inr (Some (MeterStatus ''M001''
                 \<lparr>latest = \<lparr>kwh_consumed_ac = 4, voltage = 232\<rparr>,
                  last_seen_at = 1770890400000, updated_at = 1770890400500\<rparr>)),
          [SelectMeterCurrent ''M001''])
   \<and> getLiveStatus (pg_dataSource sample_db 1770890460000 no_reports) ''BICYCLE'' ''V001''
       = (Inr None, [SelectMeterCurrent ''V001''])
   \<and> (\<exists>e. getDeviceHistory no_reports
             \<lparr>DeviceHistoryQueryDto.deviceType = ''BICYCLE'', deviceId = ''M001'',
              from' = ''2026-02-12T00:00:00Z'', to' = ''2026-02-13T00:00:00Z'', limit = 1000\<rparr>
            = (Inl e, []) \<and> response_status e = 400)
   \<and> (\<exists>e. getFleetSummary no_reports
             \<lparr>FleetSummaryQueryDto.deviceType = ''BICYCLE'',
              from' = ''2026-02-12T00:00:00Z'', to' = ''2026-02-13T00:00:00Z''\<rparr>
            = (Inl e, []) \<and> response_status e = 400)"
proof -
  have ne: "''BICYCLE'' \<noteq> ''VEHICLE''" "''BICYCLE'' \<noteq> ''METER''" by simp_all
  have rows: "current (meter_tables sample_db) ''M001''
                = Some \<lparr>latest = \<lparr>kwh_consumed_ac = 4, voltage = 232\<rparr>,
                        last_seen_at = 1770890400000, updated_at = 1770890400500\<rparr>"
    "current (meter_tables sample_db) ''V001'' = None"
    by (simp_all add: sample_db_def)
  note live = live_status_never_rejects_a_device_type
    [where dt = "''BICYCLE''" and db = sample_db and now = 1770890460000
       and reports = no_reports and ds = no_reports
       and hq = "\<lparr>DeviceHistoryQueryDto.deviceType = ''BICYCLE'', deviceId = ''M001'',
                   from' = ''2026-02-12T00:00:00Z'', to' = ''2026-02-13T00:00:00Z'',
                   limit = 1000\<rparr>"
       and fq = "\<lparr>FleetSummaryQueryDto.deviceType = ''BICYCLE'',
                   from' = ''2026-02-12T00:00:00Z'', to' = ''2026-02-13T00:00:00Z''\<rparr>"]
  have a: "getLiveStatus (pg_dataSource sample_db 1770890460000 no_reports) ''BICYCLE'' ''M001''
       = (Inr (Some (MeterStatus ''M001''
                 \<lparr>latest = \<lparr>kwh_consumed_ac = 4, voltage = 232\<rparr>,
                  last_seen_at = 1770890400000, updated_at = 1770890400500\<rparr>)),
          [SelectMeterCurrent ''M001''])"
    using live [where i = "''M001''"] ne by (simp add: rows)
  have b: "getLiveStatus (pg_dataSource sample_db 1770890460000 no_reports) ''BICYCLE'' ''V001''
       = (Inr None, [SelectMeterCurrent ''V001''])"
    using live [where i = "''V001''"] ne by (simp add: rows)
  have c: "(\<exists>e. getDeviceHistory no_reports
             \<lparr>DeviceHistoryQueryDto.deviceType = ''BICYCLE'', deviceId = ''M001'',
              from' = ''2026-02-12T00:00:00Z'', to' = ''2026-02-13T00:00:00Z'', limit = 1000\<rparr>
            = (Inl e, []) \<and> response_status e = 400)
   \<and> (\<exists>e. getFleetSummary no_reports
             \<lparr>FleetSummaryQueryDto.deviceType = ''BICYCLE'',
              from' = ''2026-02-12T00:00:00Z'', to' = ''2026-02-13T00:00:00Z''\<rparr>
            = (Inl e, []) \<and> response_status e = 400)"
    using live [where i = "''M001''"] ne by simp
  show ?thesis
    using ne a b c by blast
qed

section \<open>Validation of a vehicle payload\<close>

text \<open>
  What \<^verbatim>\<open>ingestVehicle\<close> accepts: the identifier is a non-empty string, of any
  length; \<^verbatim>\<open>soc\<close> is a number from 0 to 100; \<^verbatim>\<open>kwhDeliveredDc\<close> is a number not
  below 0; \<^verbatim>\<open>batteryTemp\<close> is a number; the timestamp is an ISO 8601 date string.
  Then the record is pushed; otherwise a bad-request exception (status 400)
  with the failed constraints is thrown and the engine is left as it was.
\<close>

lemma validate_vehicle_passes_iff:
  "validate_vehicle isISO8601 p = [] \<longleftrightarrow>
     (\<exists>s. p ''vehicleId'' = JString s \<and> s \<noteq> [])
     \<and> (\<exists>x. p ''soc'' = JNumber (Finite x) \<and> 0 \<le> x \<and> x \<le> 100)
     \<and> (\<exists>k. p ''kwhDeliveredDc'' = JNumber (Finite k) \<and> 0 \<le> k)
     \<and> (\<exists>b. p ''batteryTemp'' = JNumber (Finite b))
     \<and> (\<exists>t. p ''timestamp'' = JString t \<and> isISO8601 t)"
  by (auto simp: validate_vehicle_def failed_def isString_def isNotEmpty_def isNumber_def
      min_value_def max_value_def isDateString_def split: jsval.splits js_number.splits)

lemma ingestVehicle_accepts:
  "validate_vehicle isISO8601 p = [] \<Longrightarrow>
   ingestVehicle isISO8601 p w = (Inr (), pushVehicle (plainToVehicle p) w)"
  by (simp add: ingestVehicle_def)

lemma ingestVehicle_rejects:
  "validate_vehicle isISO8601 p \<noteq> [] \<Longrightarrow>
   \<exists>e. ingestVehicle isISO8601 p w = (Inl e, w) \<and> getStatus e = 400
       \<and> e = BadRequestException ''Invalid VEHICLE payload'' (validate_vehicle isISO8601 p)"
  by (simp add: ingestVehicle_def)

text \<open>
  C6, evaluated on the code. A vehicle payload whose identifier has 65
  characters, and is otherwise valid, raises no validation message: it is
  accepted and buffered. The history table's \<^verbatim>\<open>VARCHAR(64)\<close> refuses the
  identifier, so the flush that carries the record fails and rolls back.
\<close>

theorem overlong_identifier_passes_validation:
  "length ''V0000000000000000000000000000000000000000000000000000000000000065'' = 65
   \<and> validate_vehicle sample_isISO8601
        (vehicle_plain
           (JString ''V0000000000000000000000000000000000000000000000000000000000000065''))
       = []
   \<and> ingest sample_isISO8601 ''VEHICLE''
        (vehicle_plain
           (JString ''V0000000000000000000000000000000000000000000000000000000000000065''))
        (new_engine 500)
       = (Inr True,
          (new_engine 500)
            \<lparr>vehicleBuffer :=
               [\<lparr>VehiclePayloadDto.vehicleId =
                    ''V0000000000000000000000000000000000000000000000000000000000000065'',
                  soc = 72, kwhDeliveredDc = 3, batteryTemp = 31,
                  timestamp = ''2026-02-12T10:00:00Z''\<rparr>]\<rparr>)
   \<and> fst (vehicle_ingestBatch sample_toDate healthy 7
        [\<lparr>VehiclePayloadDto.vehicleId =
             ''V0000000000000000000000000000000000000000000000000000000000000065'',
           soc = 72, kwhDeliveredDc = 3, batteryTemp = 31,
           timestamp = ''2026-02-12T10:00:00Z''\<rparr>] fresh_session)
       = Inl StringDataRightTruncation"
proof -
  let ?id = "''V0000000000000000000000000000000000000000000000000000000000000065''"
  let ?dto = "\<lparr>VehiclePayloadDto.vehicleId = ?id, soc = 72, kwhDeliveredDc = 3,
                batteryTemp = 31, timestamp = ''2026-02-12T10:00:00Z''\<rparr>"
  have len: "length ?id = 65" by simp
  have valid: "validate_vehicle sample_isISO8601 (vehicle_plain (JString ?id)) = []"
    unfolding validate_vehicle_passes_iff
    by (simp add: vehicle_plain_def sample_isISO8601_def sample_toDate_def)
  have dto: "plainToVehicle (vehicle_plain (JString ?id)) = ?dto"
    by (simp add: plainToVehicle_def vehicle_plain_def string_of_def number_of_def)
  have pushed: "pushVehicle ?dto (new_engine 500) = (new_engine 500)\<lparr>vehicleBuffer := [?dto]\<rparr>"
    by (simp add: engine_defs Let_def)
  have accepted: "ingest sample_isISO8601 ''VEHICLE'' (vehicle_plain (JString ?id)) (new_engine 500)
                  = (Inr True, (new_engine 500)\<lparr>vehicleBuffer := [?dto]\<rparr>)"
    by (simp add: ingest_def ingestVehicle_accepts [OF valid] dto pushed)
  have refused: "vehicle_params sample_toDate ?dto = Inl StringDataRightTruncation"
    by (simp add: vehicle_params_def varchar_def bind_err_def)
  have failed: "fst (vehicle_ingestBatch sample_toDate healthy 7 [?dto] fresh_session)
                = Inl StringDataRightTruncation"
    by (simp add: vehicle_ingestBatch_def ingestBatch_healthy refused bind_err_def)
  show ?thesis
    using len valid accepted failed by blast
qed


end
